theory Spec2Isabelle
  imports Complex_Main "HOL-Library.Sublist" "HOL-Library.AList" "HOL-Library.Monad_Syntax"
begin

section \<open>Python floats\<close>

text \<open>
  A Python float is an IEEE 754 binary64 number. A finite one is modelled by its exact
  value, a rational; every arithmetic operation computes the exact result and rounds it
  to the nearest binary64 value, ties to the even significand. The exponent range is not
  modelled: the quotients and sums below stay far above the subnormal range, and a
  length large enough to overflow cannot be stored.
\<close>

type_synonym pyfloat = rat

fun bit_length :: "nat \<Rightarrow> nat" where
  "bit_length n = (if n = 0 then 0 else Suc (bit_length (n div 2)))"

text \<open>The binary exponent of a positive rational: the \<open>e\<close> with \<open>2^e \<le> x < 2^(e+1)\<close>.\<close>

definition binade :: "rat \<Rightarrow> int" where
  "binade x = (if 1 \<le> x then int (bit_length (nat \<lfloor>x\<rfloor>)) - 1
               else - int (bit_length (nat (\<lceil>1 / x\<rceil> - 1))))"

text \<open>The spacing of binary64 numbers (53 significant bits) around a positive rational.\<close>

definition ulp :: "rat \<Rightarrow> rat" where
  "ulp x = 2 powi (binade x - 52)"

definition round_half_even :: "rat \<Rightarrow> int" where
  "round_half_even y =
     (let f = \<lfloor>y\<rfloor>; d = y - of_int f
      in if d < 1 / 2 then f else if 1 / 2 < d then f + 1
         else if even f then f else f + 1)"

text \<open>Rounding of an exact result to binary64.\<close>

definition fl :: "rat \<Rightarrow> pyfloat" where
  "fl x = (if x = 0 then 0
           else sgn x * of_int (round_half_even (\<bar>x\<bar> / ulp \<bar>x\<bar>)) * ulp \<bar>x\<bar>)"

text \<open>\<open>float(k)\<close> for an int, as in the mixed operation \<open>k / 200.0\<close>.\<close>

definition float_of_int :: "int \<Rightarrow> pyfloat" where
  "float_of_int k = fl (of_int k)"

definition fadd :: "pyfloat \<Rightarrow> pyfloat \<Rightarrow> pyfloat" where
  "fadd a b = fl (a + b)"

definition fmul :: "pyfloat \<Rightarrow> pyfloat \<Rightarrow> pyfloat" where
  "fmul a b = fl (a * b)"

definition fdiv :: "pyfloat \<Rightarrow> pyfloat \<Rightarrow> pyfloat" where
  "fdiv a b = fl (a / b)"

text \<open>\<open>a / b\<close> for two ints: the exact quotient, rounded once.\<close>

definition int_truediv :: "int \<Rightarrow> int \<Rightarrow> pyfloat" where
  "int_truediv a b = fl (of_int a / of_int b)"

text \<open>
  \<open>round(x, 3)\<close>: the exact value of the float is rounded to three decimals, ties to
  even, and the decimal is converted back to the nearest float.
\<close>

definition round3 :: "pyfloat \<Rightarrow> pyfloat" where
  "round3 x = fl (of_int (round_half_even (x * 1000)) / 1000)"

text \<open>
  The unit roundoff of binary64: one rounding of a value below 2 in magnitude moves it by
  at most this much.
\<close>

definition unit_roundoff :: rat where
  "unit_roundoff = 1 / 2 ^ 53"


section \<open>Python strings\<close>

text \<open>
  A \<open>str\<close> is a list of code points; the model covers the code points below 256, one
  \<open>char\<close> each, so that \<open>length\<close> is Python's \<open>len\<close>.
\<close>

text \<open>\<open>str.isspace\<close> on one character (also the class \<open>\s\<close> of \<open>re\<close>).\<close>

definition isspace :: "char \<Rightarrow> bool" where
  "isspace c = (let n = (of_char c :: nat)
                in (9 \<le> n \<and> n \<le> 13) \<or> (28 \<le> n \<and> n \<le> 32) \<or> n = 133 \<or> n = 160)"

definition lower_char :: "char \<Rightarrow> char" where
  "lower_char c = (let n = (of_char c :: nat)
                   in if (65 \<le> n \<and> n \<le> 90) \<or> (192 \<le> n \<and> n \<le> 222 \<and> n \<noteq> 215)
                      then char_of (n + 32) else c)"

definition lower :: "string \<Rightarrow> string" where
  "lower s = map lower_char s"

text \<open>
  \<open>s.split()\<close>: the maximal runs of characters that are not whitespace. The first
  argument is the run being read.
\<close>

fun split_from :: "string \<Rightarrow> string \<Rightarrow> string list" where
  "split_from w [] = (if w = [] then [] else [w])"
| "split_from w (c # cs) =
     (if isspace c then (if w = [] then split_from [] cs else w # split_from [] cs)
      else split_from (w @ [c]) cs)"

definition py_split :: "string \<Rightarrow> string list" where
  "py_split s = split_from [] s"

definition strip :: "string \<Rightarrow> string" where
  "strip s = rev (dropWhile isspace (rev (dropWhile isspace s)))"

text \<open>\<open>w in s\<close> on strings: \<open>w\<close> starts at some position of \<open>s\<close>.\<close>

fun py_in :: "string \<Rightarrow> string \<Rightarrow> bool" where
  "py_in w [] = (w = [])"
| "py_in w (c # cs) = (prefix w (c # cs) \<or> py_in w cs)"


section \<open>WhatsAppExtractor.calculate_harmony_score\<close>

text \<open>Each local variable of the function body is a function of the message.\<close>

definition length_score :: "string \<Rightarrow> pyfloat" where
  "length_score message = min 1 (fdiv (float_of_int (int (length message))) 200)"

definition word_count :: "string \<Rightarrow> nat" where
  "word_count message = length (py_split message)"

definition word_score :: "string \<Rightarrow> pyfloat" where
  "word_score message = min 1 (fdiv (float_of_int (int (word_count message))) 50)"

definition positive_words :: "string list" where
  "positive_words = [''good'', ''great'', ''love'', ''happy'', ''yes'', ''thanks'', ''please'']"

definition negative_words :: "string list" where
  "negative_words = [''bad'', ''hate'', ''angry'', ''sad'', ''no'', ''never'', ''sorry'']"

definition positive_count :: "string \<Rightarrow> nat" where
  "positive_count message =
     length (filter (\<lambda>word. py_in word (lower message)) positive_words)"

definition negative_count :: "string \<Rightarrow> nat" where
  "negative_count message =
     length (filter (\<lambda>word. py_in word (lower message)) negative_words)"

definition sentiment_score :: "string \<Rightarrow> pyfloat" where
  "sentiment_score message =
     (let sentiment_score =
            fdiv (float_of_int (int (positive_count message) - int (negative_count message))) 10
      in max 0 (min 1 (fadd sentiment_score (1 / 2))))"

definition punctuation_count :: "string \<Rightarrow> nat" where
  "punctuation_count message = length (filter (\<lambda>c. c \<in> set ''.,!?;:'') message)"

definition punctuation_score :: "string \<Rightarrow> pyfloat" where
  "punctuation_score message =
     min 1 (fdiv (float_of_int (int (punctuation_count message))) 5)"

definition calculate_harmony_score :: "string \<Rightarrow> pyfloat" where
  "calculate_harmony_score message =
     (let harmony =
            fadd (fadd (fadd (fmul (length_score message) (1 / 4))
                             (fmul (word_score message) (1 / 4)))
                       (fmul (sentiment_score message) (1 / 4)))
                 (fmul (punctuation_score message) (1 / 4))
      in round3 harmony)"


section \<open>PlatformExtractor.calculate_harmony and assign_face\<close>

definition pe_positive_words :: "string list" where
  "pe_positive_words = [''good'', ''great'', ''love'', ''happy'', ''yes'', ''thanks'']"

definition pe_negative_words :: "string list" where
  "pe_negative_words = [''bad'', ''hate'', ''angry'', ''sad'', ''no'', ''never'']"

definition pe_positive :: "string \<Rightarrow> nat" where
  "pe_positive message = length (filter (\<lambda>w. py_in w (lower message)) pe_positive_words)"

definition pe_negative :: "string \<Rightarrow> nat" where
  "pe_negative message = length (filter (\<lambda>w. py_in w (lower message)) pe_negative_words)"

definition pe_sentiment :: "string \<Rightarrow> pyfloat" where
  "pe_sentiment message =
     max 0 (min 1 (fadd (fdiv (float_of_int (int (pe_positive message) - int (pe_negative message)))
                              10)
                        (1 / 2)))"

definition calculate_harmony :: "string \<Rightarrow> pyfloat" where
  "calculate_harmony message =
     (let length_score = min 1 (fdiv (float_of_int (int (length message))) 200);
          word_score = min 1 (fdiv (float_of_int (int (length (py_split message)))) 50);
          sentiment = pe_sentiment message;
          punctuation = length (filter (\<lambda>c. c \<in> set ''.,!?;:'') message);
          punctuation_score = min 1 (fdiv (float_of_int (int punctuation)) 5)
      in round3 (fadd (fadd (fadd (fmul length_score (1 / 4)) (fmul word_score (1 / 4)))
                            (fmul sentiment (1 / 4)))
                      (fmul punctuation_score (1 / 4))))"

text \<open>The literals \<open>0.8\<close>, \<open>0.6\<close> and \<open>0.4\<close> denote the floats nearest to them.\<close>

definition assign_face :: "pyfloat \<Rightarrow> string" where
  "assign_face harmony =
     (if fl (8 / 10) < harmony then ''EAGLE''
      else if fl (6 / 10) < harmony then ''LION''
      else if fl (4 / 10) < harmony then ''OX''
      else ''MAN'')"


section \<open>WhatsAppExtractor.pipe_through_merkabah\<close>

record pipe_result =
  message :: string
  harmony_score :: pyfloat
  assigned_face :: string
  action :: string
  timestamp :: string

text \<open>
  The chain of comparisons that picks the face and the action is \<open>merkabah_route\<close>;
  the time of the call, \<open>datetime.utcnow().isoformat()\<close>, is an argument.
\<close>

definition merkabah_route :: "pyfloat \<Rightarrow> string \<times> string" where
  "merkabah_route harmony =
     (if fl (8 / 10) < harmony then (''EAGLE'', ''ARCHIVE'')
      else if fl (6 / 10) < harmony then (''LION'', ''VERIFY'')
      else if fl (4 / 10) < harmony then (''OX'', ''PROCESS'')
      else (''MAN'', ''REVIEW''))"

definition pipe_through_merkabah :: "string \<Rightarrow> string \<Rightarrow> pipe_result" where
  "pipe_through_merkabah utcnow msg =
     (let harmony = calculate_harmony_score msg;
          (face, act) = merkabah_route harmony
      in \<lparr>message = msg, harmony_score = harmony, assigned_face = face, action = act,
          timestamp = utcnow\<rparr>)"


section \<open>The scorer as the specification states it\<close>

text \<open>
  The reference definition of the specification, in exact rational arithmetic: a hit is a
  lexicon word that occurs in the lower-cased text as a contiguous sublist, a token
  starts at every character that is not whitespace and follows whitespace or the start.
\<close>

fun tokens_after :: "bool \<Rightarrow> string \<Rightarrow> nat" where
  "tokens_after prev_space [] = 0"
| "tokens_after prev_space (c # cs) =
     (if isspace c then tokens_after True cs
      else (if prev_space then 1 else 0) + tokens_after False cs)"

definition spec_hits :: "string list \<Rightarrow> string \<Rightarrow> nat" where
  "spec_hits lexicon text = length (filter (\<lambda>w. sublist w (lower text)) lexicon)"

definition spec_clamp :: "rat \<Rightarrow> rat \<Rightarrow> rat \<Rightarrow> rat" where
  "spec_clamp lo hi x = (if x < lo then lo else if hi < x then hi else x)"

definition spec_average :: "string list \<Rightarrow> string list \<Rightarrow> string \<Rightarrow> rat" where
  "spec_average pos neg text =
     (let length_score = min 1 (of_nat (length text) / 200);
          word_score = min 1 (of_nat (tokens_after True text) / 50);
          sentiment_score =
            spec_clamp 0 1
              (1 / 2 + of_int (int (spec_hits pos text) - int (spec_hits neg text)) / 10);
          punctuation_score =
            min 1 (of_nat (length (filter (\<lambda>c. c \<in> set ''.,!?;:'') text)) / 5)
      in 1 / 4 * length_score + 1 / 4 * word_score + 1 / 4 * sentiment_score
         + 1 / 4 * punctuation_score)"

text \<open>The average rounded to three decimals, a tie going to the even thousandth.\<close>

definition spec_score :: "string list \<Rightarrow> string list \<Rightarrow> string \<Rightarrow> rat" where
  "spec_score pos neg text =
     of_int (round_half_even (spec_average pos neg text * 1000)) / 1000"


section \<open>JSON values, exceptions and the outside world\<close>

text \<open>The value \<open>response.json()\<close> returns; the items of an object have distinct keys.\<close>

datatype json =
    JNull
  | JBool bool
  | JNum rat
  | JStr string
  | JArr "json list"
  | JObj "(string \<times> json) list"

text \<open>
  The exceptions a query can meet, all of them subclasses of \<open>Exception\<close>: those of
  subscripting, of decoding the body, and of \<open>requests.post\<close>.
\<close>

datatype pyexc =
    KeyError string
  | IndexError
  | TypeError
  | JSONDecodeError
  | Timeout
  | ConnectionError
  | OtherException string

record request =
  url :: string
  json_payload :: json
  headers :: "(string \<times> string) list"
  timeout :: nat

record response =
  status_code :: int
  json_body :: "pyexc + json"

text \<open>
  What the program reads from outside: the environment variables, the network
  (\<open>post\<close> answers a request, given the requests sent before it, with a response or an
  exception), the text \<open>str\<close> gives for an exception and for a value that is not a
  string, and the clock.
\<close>

record world =
  getenv :: "string \<Rightarrow> string option"
  post :: "request list \<Rightarrow> request \<Rightarrow> pyexc + response"
  str_exc :: "pyexc \<Rightarrow> string"
  str_json :: "json \<Rightarrow> string"
  utcnow :: string

definition digit_char :: "nat \<Rightarrow> char" where
  "digit_char d = char_of (48 + d)"

fun digits_of :: "nat \<Rightarrow> string" where
  "digits_of n =
     (if n < 10 then [digit_char n] else digits_of (n div 10) @ [digit_char (n mod 10)])"

text \<open>\<open>str(k)\<close> for an int, as an f-string formats the status code.\<close>

definition str_int :: "int \<Rightarrow> string" where
  "str_int k = (if k < 0 then CHR ''-'' # digits_of (nat (- k)) else digits_of (nat k))"

definition py_str :: "world \<Rightarrow> json \<Rightarrow> string" where
  "py_str w v = (case v of JStr s \<Rightarrow> s | _ \<Rightarrow> str_json w v)"

text \<open>\<open>v[k]\<close> with a string key and \<open>v[i]\<close> with an index.\<close>

definition subscript_key :: "json \<Rightarrow> string \<Rightarrow> pyexc + json" where
  "subscript_key v k =
     (case v of
        JObj items \<Rightarrow> (case map_of items k of Some x \<Rightarrow> Inr x | None \<Rightarrow> Inl (KeyError k))
      | _ \<Rightarrow> Inl TypeError)"

definition subscript_index :: "json \<Rightarrow> nat \<Rightarrow> pyexc + json" where
  "subscript_index v i =
     (case v of
        JArr xs \<Rightarrow> (if i < length xs then Inr (xs ! i) else Inl IndexError)
      | JStr s \<Rightarrow> (if i < length s then Inr (JStr [s ! i]) else Inl IndexError)
      | JObj items \<Rightarrow> Inl (KeyError (str_int (int i)))
      | _ \<Rightarrow> Inl TypeError)"

text \<open>Sequencing of steps that may raise, and \<open>try: ... except Exception as e: ...\<close>.\<close>

definition and_then :: "pyexc + 'a \<Rightarrow> ('a \<Rightarrow> pyexc + 'b) \<Rightarrow> pyexc + 'b" where
  "and_then r f = (case r of Inl e \<Rightarrow> Inl e | Inr x \<Rightarrow> f x)"

definition try_except :: "pyexc + 'a \<Rightarrow> (pyexc \<Rightarrow> pyexc + 'a) \<Rightarrow> pyexc + 'a" where
  "try_except body handler = (case body of Inl e \<Rightarrow> handler e | Inr x \<Rightarrow> Inr x)"


section \<open>JoinityOrchestrator: the four queries\<close>

text \<open>
  The \<open>try\<close> block the four query methods share: post the request, on status 200 take
  the text out of the decoded body, on another status return the message with the code;
  the handler turns any exception into a message.
\<close>

definition http_try ::
  "world \<Rightarrow> request list \<Rightarrow> request \<Rightarrow> (json \<Rightarrow> pyexc + json) \<Rightarrow> string \<Rightarrow> string
   \<Rightarrow> pyexc + json"
where
  "http_try w sent req extract status_prefix error_prefix =
     try_except
       (and_then (post w sent req) (\<lambda>response.
          if status_code response = 200 then and_then (json_body response) extract
          else Inr (JStr (status_prefix @ str_int (status_code response)))))
       (\<lambda>e. Inr (JStr (error_prefix @ str_exc w e)))"

definition user_messages :: "string \<Rightarrow> json" where
  "user_messages prompt = JArr [JObj [(''role'', JStr ''user''), (''content'', JStr prompt)]]"

text \<open>\<open>j["choices"][0]["message"]["content"]\<close>\<close>

definition choices_content :: "json \<Rightarrow> pyexc + json" where
  "choices_content j =
     and_then (and_then (and_then (subscript_key j ''choices'') (\<lambda>c. subscript_index c 0))
                 (\<lambda>c. subscript_key c ''message''))
       (\<lambda>m. subscript_key m ''content'')"

text \<open>\<open>j["content"][0]["text"]\<close>\<close>

definition content_text :: "json \<Rightarrow> pyexc + json" where
  "content_text j =
     and_then (and_then (subscript_key j ''content'') (\<lambda>c. subscript_index c 0))
       (\<lambda>c. subscript_key c ''text'')"

definition openai_request :: "string \<Rightarrow> string \<Rightarrow> string \<Rightarrow> request" where
  "openai_request api_key prompt model =
     \<lparr>url = ''https://api.openai.com/v1/chat/completions'',
      json_payload = JObj [(''model'', JStr model), (''messages'', user_messages prompt)],
      headers = [(''Authorization'', ''Bearer '' @ api_key)],
      timeout = 30\<rparr>"

definition query_openai ::
  "world \<Rightarrow> string \<Rightarrow> string \<Rightarrow> request list \<Rightarrow> (pyexc + json) \<times> request list" where
  "query_openai w prompt model sent =
     (case getenv w ''OPENAI_API_KEY'' of
        None \<Rightarrow> (Inr (JStr ''[MAN] OpenAI API key not configured''), sent)
      | Some api_key \<Rightarrow>
          if api_key = [] then (Inr (JStr ''[MAN] OpenAI API key not configured''), sent)
          else (http_try w sent (openai_request api_key prompt model) choices_content
                  ''[MAN] OpenAI error: '' ''[MAN] Error: '',
                sent @ [openai_request api_key prompt model]))"

definition anthropic_request :: "string \<Rightarrow> string \<Rightarrow> string \<Rightarrow> request" where
  "anthropic_request api_key prompt model =
     \<lparr>url = ''https://api.anthropic.com/v1/messages'',
      json_payload = JObj [(''model'', JStr model), (''max_tokens'', JNum 1024),
                           (''messages'', user_messages prompt)],
      headers = [(''x-api-key'', api_key), (''anthropic-version'', ''2023-06-01'')],
      timeout = 30\<rparr>"

definition query_anthropic ::
  "world \<Rightarrow> string \<Rightarrow> string \<Rightarrow> request list \<Rightarrow> (pyexc + json) \<times> request list" where
  "query_anthropic w prompt model sent =
     (case getenv w ''ANTHROPIC_API_KEY'' of
        None \<Rightarrow> (Inr (JStr ''[LION] Anthropic API key not configured''), sent)
      | Some api_key \<Rightarrow>
          if api_key = [] then (Inr (JStr ''[LION] Anthropic API key not configured''), sent)
          else (http_try w sent (anthropic_request api_key prompt model) content_text
                  ''[LION] Anthropic error: '' ''[LION] Error: '',
                sent @ [anthropic_request api_key prompt model]))"

definition ollama_request :: "string \<Rightarrow> string \<Rightarrow> request" where
  "ollama_request prompt model =
     \<lparr>url = ''http://localhost:11434/api/generate'',
      json_payload = JObj [(''model'', JStr model), (''prompt'', JStr prompt),
                           (''stream'', JBool False)],
      headers = [],
      timeout = 60\<rparr>"

definition query_ollama ::
  "world \<Rightarrow> string \<Rightarrow> string \<Rightarrow> request list \<Rightarrow> (pyexc + json) \<times> request list" where
  "query_ollama w prompt model sent =
     (http_try w sent (ollama_request prompt model) (\<lambda>j. subscript_key j ''response'')
        ''[OX] Ollama error: '' ''[OX] Ollama not running or error: '',
      sent @ [ollama_request prompt model])"

definition deepseek_request :: "string \<Rightarrow> string \<Rightarrow> request" where
  "deepseek_request api_key prompt =
     \<lparr>url = ''https://api.deepseek.com/v1/chat/completions'',
      json_payload = JObj [(''model'', JStr ''deepseek-chat''),
                           (''messages'', user_messages prompt)],
      headers = [(''Authorization'', ''Bearer '' @ api_key)],
      timeout = 30\<rparr>"

definition query_deepseek ::
  "world \<Rightarrow> string \<Rightarrow> request list \<Rightarrow> (pyexc + json) \<times> request list" where
  "query_deepseek w prompt sent =
     (case getenv w ''DEEPSEEK_API_KEY'' of
        None \<Rightarrow> (Inr (JStr ''[EAGLE] DeepSeek API key not configured''), sent)
      | Some api_key \<Rightarrow>
          if api_key = [] then (Inr (JStr ''[EAGLE] DeepSeek API key not configured''), sent)
          else (http_try w sent (deepseek_request api_key prompt) choices_content
                  ''[EAGLE] DeepSeek error: '' ''[EAGLE] Error: '',
                sent @ [deepseek_request api_key prompt]))"


section \<open>JoinityOrchestrator.orchestrate and calculate_harmony\<close>

text \<open>
  The fields of the orchestrator that \<open>orchestrate\<close> writes; the dictionary keeps its
  keys in the order of their first insertion. The requests sent so far are carried along
  with the object.
\<close>

record joinity =
  responses :: "(string \<times> json) list"
  joinity_harmony_score :: pyfloat

record orchestration =
  o_prompt :: string
  o_responses :: "(string \<times> json) list"
  o_harmony_score :: pyfloat
  o_timestamp :: string
  o_status :: string

definition orchestrator_calculate_harmony :: "world \<Rightarrow> joinity \<Rightarrow> pyfloat" where
  "orchestrator_calculate_harmony w self =
     (if responses self = [] then 0
      else let total_length = sum_list (map (\<lambda>r. length (py_str w r)) (map snd (responses self)));
               avg_length = int_truediv (int total_length) (int (length (responses self)));
               harmony = min 1 (fdiv avg_length 1000)
           in round3 harmony)"

text \<open>One assignment \<open>self.responses[face] = self.query_...(prompt)\<close>.\<close>

definition store_response ::
  "string \<Rightarrow> (pyexc + json) \<times> request list \<Rightarrow> joinity
   \<Rightarrow> (pyexc + joinity) \<times> request list" where
  "store_response face outcome self =
     (case outcome of
        (Inl e, sent') \<Rightarrow> (Inl e, sent')
      | (Inr r, sent') \<Rightarrow> (Inr (self\<lparr>responses := AList.update face r (responses self)\<rparr>), sent'))"

fun orchestrate_loop ::
  "world \<Rightarrow> string \<Rightarrow> string list \<Rightarrow> joinity \<Rightarrow> request list
   \<Rightarrow> (pyexc + joinity) \<times> request list" where
  "orchestrate_loop w prompt [] self sent = (Inr self, sent)"
| "orchestrate_loop w prompt (face # faces) self sent =
     (case (if face = ''MAN'' then store_response ''MAN'' (query_openai w prompt ''gpt-4'' sent) self
            else if face = ''LION''
              then store_response ''LION'' (query_anthropic w prompt ''claude-3-sonnet'' sent) self
            else if face = ''OX''
              then store_response ''OX'' (query_ollama w prompt ''mistral'' sent) self
            else if face = ''EAGLE''
              then store_response ''EAGLE'' (query_deepseek w prompt sent) self
            else (Inr self, sent)) of
        (Inl e, sent') \<Rightarrow> (Inl e, sent')
      | (Inr self', sent') \<Rightarrow> orchestrate_loop w prompt faces self' sent')"

definition orchestrate ::
  "world \<Rightarrow> string \<Rightarrow> string list option \<Rightarrow> joinity \<Rightarrow> request list
   \<Rightarrow> (pyexc + orchestration \<times> joinity) \<times> request list" where
  "orchestrate w prompt faces self sent =
     (let faces = (case faces of None \<Rightarrow> [''MAN'', ''LION'', ''OX'', ''EAGLE''] | Some fs \<Rightarrow> fs)
      in case orchestrate_loop w prompt faces (self\<lparr>responses := []\<rparr>) sent of
           (Inl e, sent') \<Rightarrow> (Inl e, sent')
         | (Inr self1, sent') \<Rightarrow>
             (let self2 = self1\<lparr>joinity_harmony_score := orchestrator_calculate_harmony w self1\<rparr>
              in (Inr (\<lparr>o_prompt = prompt, o_responses = responses self2,
                         o_harmony_score = joinity_harmony_score self2,
                         o_timestamp = utcnow w, o_status = ''complete''\<rparr>, self2),
                  sent')))"

text \<open>
  For the statements about the loop: the faces the chain of comparisons knows, and the
  query it makes for a face.
\<close>

definition known_faces :: "string set" where
  "known_faces = {''MAN'', ''LION'', ''OX'', ''EAGLE''}"

definition query_face ::
  "world \<Rightarrow> string \<Rightarrow> string \<Rightarrow> request list \<Rightarrow> ((pyexc + json) \<times> request list) option"
where
  "query_face w prompt face sent =
     (if face = ''MAN'' then Some (query_openai w prompt ''gpt-4'' sent)
      else if face = ''LION'' then Some (query_anthropic w prompt ''claude-3-sonnet'' sent)
      else if face = ''OX'' then Some (query_ollama w prompt ''mistral'' sent)
      else if face = ''EAGLE'' then Some (query_deepseek w prompt sent)
      else None)"

text \<open>
  The aggregate score as the specification states it, over the response texts, in exact
  rational arithmetic: the average length over the target, capped, and then rounded to
  three decimals.
\<close>

definition spec_aggregate_average :: "string list \<Rightarrow> rat" where
  "spec_aggregate_average texts =
     min 1 (of_nat (sum_list (map length texts)) / of_nat (length texts) / 1000)"

definition spec_aggregate :: "string list \<Rightarrow> rat" where
  "spec_aggregate texts = of_int (round_half_even (spec_aggregate_average texts * 1000)) / 1000"


section \<open>WhatsAppExtractor.extract_from_txt\<close>

record wa_message =
  m_timestamp :: string
  m_contact :: string
  m_message :: string
  m_length :: nat
  m_word_count :: nat

text \<open>The class \<open>\\d\<close> of \<open>re\<close> on the code points below 256.\<close>

definition isdigit :: "char \<Rightarrow> bool" where
  "isdigit c = (let n = (of_char c :: nat) in 48 \<le> n \<and> n \<le> 57)"

text \<open>One literal character of the pattern, and \<open>\\d{n}\<close>.\<close>

definition expect :: "char \<Rightarrow> string \<Rightarrow> string option" where
  "expect c s = (case s of [] \<Rightarrow> None | x # xs \<Rightarrow> if x = c then Some xs else None)"

definition digits :: "nat \<Rightarrow> string \<Rightarrow> (string \<times> string) option" where
  "digits n s =
     (if n \<le> length s \<and> list_all isdigit (take n s) then Some (take n s, drop n s) else None)"

text \<open>
  The part \<open>\\s*([^:]+)\<close> of the pattern, which a colon must follow. The group is the
  run of characters up to the first colon without its leading whitespace; when the run is
  whitespace only, \<open>\\s*\<close> gives back its last character to the group.
\<close>

definition contact_group :: "string \<Rightarrow> (string \<times> string) option" where
  "contact_group s =
     (let run = takeWhile (\<lambda>c. c \<noteq> CHR '':'') s;
          rest = dropWhile (\<lambda>c. c \<noteq> CHR '':'') s
      in if rest = [] then None
         else if dropWhile isspace run \<noteq> [] then Some (dropWhile isspace run, rest)
         else if run \<noteq> [] then Some ([last run], rest)
         else None)"

text \<open>
  \<open>re.match\<close> of the pattern
  \<^verbatim>\<open>\[(\d{2}:\d{2}),\s*(\d{2}/\d{2}/\d{4})\]\s*([^:]+):\s*(.*)\<close>
  at the start of a line, with the four groups; \<open>.\<close> matches every character but the
  newline.
\<close>

definition match_line :: "string \<Rightarrow> (string \<times> string \<times> string \<times> string) option" where
  "match_line line =
     do {
       r \<leftarrow> expect CHR ''['' line;
       (hh, r) \<leftarrow> digits 2 r;
       r \<leftarrow> expect CHR '':'' r;
       (mi, r) \<leftarrow> digits 2 r;
       r \<leftarrow> expect CHR '','' r;
       (dd, r) \<leftarrow> digits 2 (dropWhile isspace r);
       r \<leftarrow> expect CHR ''/'' r;
       (mo, r) \<leftarrow> digits 2 r;
       r \<leftarrow> expect CHR ''/'' r;
       (yyyy, r) \<leftarrow> digits 4 r;
       r \<leftarrow> expect CHR '']'' r;
       (contact, r) \<leftarrow> contact_group r;
       r \<leftarrow> expect CHR '':'' r;
       Some (hh @ '':'' @ mi, dd @ ''/'' @ mo @ ''/'' @ yyyy, contact,
             takeWhile (\<lambda>c. c \<noteq> CHR 0x0A) (dropWhile isspace r))
     }"

definition make_message :: "string \<times> string \<times> string \<times> string \<Rightarrow> wa_message" where
  "make_message groups =
     (case groups of (time_str, date_str, contact, msg) \<Rightarrow>
        \<lparr>m_timestamp = date_str @ '' '' @ time_str,
         m_contact = strip contact,
         m_message = strip msg,
         m_length = length msg,
         m_word_count = length (py_split msg)\<rparr>)"

fun extract_lines :: "string list \<Rightarrow> wa_message list" where
  "extract_lines [] = []"
| "extract_lines (line # lines) =
     (case match_line line of
        None \<Rightarrow> extract_lines lines
      | Some groups \<Rightarrow> make_message groups # extract_lines lines)"

text \<open>
  The lines the pattern describes, stated without the matcher: the bracketed time and
  date made of digits, optional whitespace, a sender with no colon, a colon, and any
  rest.
\<close>

definition matches_pattern :: "string \<Rightarrow> bool" where
  "matches_pattern line =
     (\<exists>hh mi ws1 dd mo yyyy ws2 sender rest.
        line = ''['' @ hh @ '':'' @ mi @ '','' @ ws1 @ dd @ ''/'' @ mo @ ''/'' @ yyyy @ '']''
               @ ws2 @ sender @ '':'' @ rest
        \<and> length hh = 2 \<and> length mi = 2 \<and> length dd = 2 \<and> length mo = 2 \<and> length yyyy = 4
        \<and> list_all isdigit (hh @ mi @ dd @ mo @ yyyy)
        \<and> list_all isspace (ws1 @ ws2)
        \<and> sender \<noteq> [] \<and> CHR '':'' \<notin> set sender)"

text \<open>
  The result dictionary of \<open>extract_from_txt\<close>. A path is absent from the file system,
  or reading it raises, or it gives the lines \<open>readlines\<close> returns.
\<close>

datatype extract_status = Extract_Error string | Extract_Success nat

definition extract_from_txt ::
  "world \<Rightarrow> (string \<Rightarrow> (pyexc + string list) option) \<Rightarrow> string \<Rightarrow> wa_message list
   \<Rightarrow> extract_status \<times> wa_message list" where
  "extract_from_txt w fs file_path self_messages =
     (case fs file_path of
        None \<Rightarrow> (Extract_Error (''File not found: '' @ file_path), self_messages)
      | Some (Inl e) \<Rightarrow> (Extract_Error (str_exc w e), self_messages)
      | Some (Inr lines) \<Rightarrow>
          (let messages = extract_lines lines
           in (Extract_Success (length messages), messages)))"

section \<open>Two concrete worlds\<close>

text \<open>
  No credential is configured and only the local model answers; and every credential is
  configured while each remote service fails in its own way.
\<close>

definition local_only_world :: world where
  "local_only_world =
     \<lparr>getenv = (\<lambda>k. None),
      post = (\<lambda>sent req.
        if url req = ''http://localhost:11434/api/generate''
        then Inr \<lparr>status_code = 200, json_body = Inr (JObj [(''response'', JStr ''Hello'')])\<rparr>
        else Inl ConnectionError),
      str_exc = (\<lambda>e. ''connection refused''),
      str_json = (\<lambda>j. ''null''),
      utcnow = ''2024-01-01T00:00:00''\<rparr>"



section \<open>Properties of the float model\<close>

declare bit_length.simps [simp del]

lemma bit_length_pos: "0 < n \<Longrightarrow> 0 < bit_length n"
  by (subst bit_length.simps) simp

lemma bit_length_bounds:
  "0 < n \<Longrightarrow> 2 ^ (bit_length n - 1) \<le> n \<and> n < 2 ^ bit_length n"
proof (induction n rule: bit_length.induct)
  case (1 n)
  show ?case
  proof (cases "n div 2 = 0")
    case True
    with "1.prems" have "n = 1" by presburger
    then show ?thesis by (simp add: bit_length.simps)
  next
    case False
    then have pos: "0 < n div 2" by simp
    define h where "h = n div 2"
    define c where "c = bit_length h - 1"
    have bh: "bit_length h = Suc c"
      using bit_length_pos [of h] pos by (simp add: c_def h_def)
    from "1.IH" [OF _ pos] "1.prems"
    have "2 ^ (bit_length h - 1) \<le> h \<and> h < 2 ^ bit_length h"
      by (simp add: h_def)
    then have ih: "2 ^ c \<le> h" "h < 2 ^ Suc c"
      unfolding bh by simp_all
    have bl: "bit_length n = Suc (Suc c)"
      using "1.prems" bh by (subst bit_length.simps) (simp add: h_def)
    have "2 * h \<le> n" "n < 2 * h + 2" unfolding h_def by presburger+
    with ih show ?thesis unfolding bl by simp
  qed
qed

lemma bit_length_rat_bounds:
  assumes "0 < n"
  shows "(2::rat) ^ (bit_length n - 1) \<le> of_nat n" "of_nat n + 1 \<le> (2::rat) ^ bit_length n"
proof -
  from bit_length_bounds [OF assms]
  have a: "2 ^ (bit_length n - 1) \<le> n" and b: "n + 1 \<le> 2 ^ bit_length n" by simp_all
  from a have "(of_nat (2 ^ (bit_length n - 1)) :: rat) \<le> of_nat n"
    by (simp only: of_nat_le_iff)
  then show "(2::rat) ^ (bit_length n - 1) \<le> of_nat n" by simp
  from b have "(of_nat (n + 1) :: rat) \<le> of_nat (2 ^ bit_length n)"
    by (simp only: of_nat_le_iff)
  then show "of_nat n + 1 \<le> (2::rat) ^ bit_length n" by simp
qed

lemma round_half_even_of_int [simp]: "round_half_even (of_int k) = k"
  by (simp add: round_half_even_def)

lemma round_half_even_near:
  "of_int (round_half_even y) \<le> y + 1 / 2" "y - 1 / 2 \<le> of_int (round_half_even y)"
  unfolding round_half_even_def Let_def by (auto; linarith)+

lemma round_half_even_mono:
  assumes "x \<le> y" shows "round_half_even x \<le> round_half_even y"
proof (cases "\<lfloor>x\<rfloor> = \<lfloor>y\<rfloor>")
  case True
  with assms show ?thesis
    unfolding round_half_even_def Let_def by auto
next
  case False
  with assms have "\<lfloor>x\<rfloor> + 1 \<le> \<lfloor>y\<rfloor>"
    using floor_mono [OF assms] by linarith
  moreover have "round_half_even x \<le> \<lfloor>x\<rfloor> + 1"
    unfolding round_half_even_def Let_def by auto
  moreover have "\<lfloor>y\<rfloor> \<le> round_half_even y"
    unfolding round_half_even_def Let_def by auto
  ultimately show ?thesis by linarith
qed

lemma binade_bounds:
  assumes "0 < x"
  shows "2 powi binade x \<le> x" and "x < 2 powi (binade x + 1)"
proof -
  have "2 powi binade x \<le> x \<and> x < 2 powi (binade x + 1)"
  proof (cases "1 \<le> x")
    case True
    define m where "m = nat \<lfloor>x\<rfloor>"
    have mpos: "0 < m" using True by (simp add: m_def)
    have "of_nat m = (of_int \<lfloor>x\<rfloor> :: rat)" using True by (simp add: m_def)
    then have mx: "of_nat m \<le> x" "x < of_nat m + 1" by linarith+
    note b = bit_length_rat_bounds [OF mpos]
    have bpos: "0 < bit_length m" using mpos by (rule bit_length_pos)
    have e: "binade x = int (bit_length m - 1)"
      using True bpos by (simp add: binade_def m_def)
    have e1: "int (bit_length m - 1) + 1 = int (bit_length m)" using bpos by simp
    have "(2::rat) ^ (bit_length m - 1) \<le> x" using b(1) mx(1) by (rule order_trans)
    moreover have "x < (2::rat) ^ bit_length m" using mx(2) b(2) by (rule less_le_trans)
    ultimately show ?thesis unfolding e e1 power_int_of_nat by simp
  next
    case False
    define y where "y = 1 / x"
    define k where "k = nat (\<lceil>y\<rceil> - 1)"
    have y1: "1 < y" using False assms by (simp add: y_def)
    then have c2: "2 \<le> \<lceil>y\<rceil>" by (simp add: less_ceiling_iff)
    then have kpos: "0 < k" by (simp add: k_def)
    have "of_nat k = (of_int (\<lceil>y\<rceil> - 1) :: rat)" using c2 by (simp add: k_def)
    then have "of_nat k = (of_int \<lceil>y\<rceil> :: rat) - 1" by simp
    then have ky: "of_nat k < y" "y \<le> of_nat k + 1" by linarith+
    note b = bit_length_rat_bounds [OF kpos]
    have bpos: "0 < bit_length k" using kpos by (rule bit_length_pos)
    have e: "binade x = - int (bit_length k)"
      using False by (simp add: binade_def k_def y_def)
    have lo: "(2::rat) ^ (bit_length k - 1) < y" using b(1) ky(1) by (rule le_less_trans)
    have hi: "y \<le> (2::rat) ^ bit_length k" using ky(2) b(2) by (rule order_trans)
    have x_eq: "x = 1 / y" using assms by (simp add: y_def)
    have ypos: "0 < y" using y1 by simp
    have p1: "2 powi (- int (bit_length k)) = 1 / (2::rat) ^ bit_length k"
      by (simp add: power_int_minus_divide)
    have "- int (bit_length k) + 1 = - int (bit_length k - 1)" using bpos by simp
    then have p2: "2 powi (- int (bit_length k) + 1) = 1 / (2::rat) ^ (bit_length k - 1)"
      by (simp only: power_int_minus_divide power_int_of_nat)
    have "1 / (2::rat) ^ bit_length k \<le> 1 / y"
      using hi ypos by (intro divide_left_mono) simp_all
    moreover have "1 / y < 1 / (2::rat) ^ (bit_length k - 1)"
      using lo ypos by (intro divide_strict_left_mono) simp_all
    ultimately have
      "2 powi (- int (bit_length k)) \<le> x \<and> x < 2 powi (- int (bit_length k) + 1)"
      unfolding p1 p2 x_eq by simp
    then show ?thesis by (simp only: e)
  qed
  then show "2 powi binade x \<le> x" and "x < 2 powi (binade x + 1)" by simp_all
qed

lemma binade_mono:
  assumes "0 < x" "x \<le> y" shows "binade x \<le> binade y"
proof (rule ccontr)
  assume "\<not> binade x \<le> binade y"
  then have "binade y + 1 \<le> binade x" by simp
  then have "(2::rat) powi (binade y + 1) \<le> 2 powi binade x"
    by (intro power_int_increasing) simp_all
  moreover have "2 powi binade x \<le> x" using assms(1) by (rule binade_bounds)
  moreover have "y < 2 powi (binade y + 1)" using assms by (intro binade_bounds) simp
  ultimately show False using assms(2) by linarith
qed

lemma ulp_pos: "0 < ulp x"
  by (simp add: ulp_def)

lemma powi_binade_ulp:
  "(2::rat) powi binade x = 2 ^ 52 * ulp x" "(2::rat) powi (binade x + 1) = 2 ^ 53 * ulp x"
proof -
  have "(2::rat) powi (52 + (binade x - 52)) = 2 powi 52 * 2 powi (binade x - 52)"
    by (rule power_int_add) simp
  then show "(2::rat) powi binade x = 2 ^ 52 * ulp x" by (simp add: ulp_def)
  have "(2::rat) powi (53 + (binade x - 52)) = 2 powi 53 * 2 powi (binade x - 52)"
    by (rule power_int_add) simp
  moreover have "53 + (binade x - 52) = binade x + 1" by simp
  ultimately show "(2::rat) powi (binade x + 1) = 2 ^ 53 * ulp x" by (simp add: ulp_def)
qed

lemma fl_pos_eq: "0 < x \<Longrightarrow> fl x = of_int (round_half_even (x / ulp x)) * ulp x"
  by (simp add: fl_def)

lemma scaled_bounds:
  assumes "0 < x"
  shows "2 ^ 52 \<le> x / ulp x" and "x / ulp x < 2 ^ 53"
proof -
  note p = powi_binade_ulp(1) [of x] and q = powi_binade_ulp(2) [of x]
  from binade_bounds [OF assms] have "2 ^ 52 * ulp x \<le> x" "x < 2 ^ 53 * ulp x"
    unfolding p q by simp_all
  then show "2 ^ 52 \<le> x / ulp x" and "x / ulp x < 2 ^ 53"
    using ulp_pos [of x] by (simp_all add: pos_le_divide_eq pos_divide_less_eq)
qed

lemma rounded_bounds:
  assumes "0 < x"
  shows "2 ^ 52 \<le> round_half_even (x / ulp x)" and "round_half_even (x / ulp x) \<le> 2 ^ 53"
proof -
  have "round_half_even (of_int (2 ^ 52)) \<le> round_half_even (x / ulp x)"
    using scaled_bounds(1) [OF assms] by (intro round_half_even_mono) simp
  then show "2 ^ 52 \<le> round_half_even (x / ulp x)"
    by (simp only: round_half_even_of_int)
  have "round_half_even (x / ulp x) \<le> round_half_even (of_int (2 ^ 53))"
    using scaled_bounds(2) [OF assms] by (intro round_half_even_mono) simp
  then show "round_half_even (x / ulp x) \<le> 2 ^ 53"
    by (simp only: round_half_even_of_int)
qed

lemma fl_binade_bounds:
  assumes "0 < x"
  shows "2 powi binade x \<le> fl x" and "fl x \<le> 2 powi (binade x + 1)"
proof -
  note p = powi_binade_ulp(1) [of x] and q = powi_binade_ulp(2) [of x]
  have "(of_int (2 ^ 52) :: rat) \<le> of_int (round_half_even (x / ulp x))"
    using rounded_bounds(1) [OF assms] by (simp only: of_int_le_iff)
  then have "2 ^ 52 * ulp x \<le> of_int (round_half_even (x / ulp x)) * ulp x"
    using ulp_pos [of x] by simp
  then show "2 powi binade x \<le> fl x" by (simp only: p fl_pos_eq [OF assms])
  have "(of_int (round_half_even (x / ulp x)) :: rat) \<le> of_int (2 ^ 53)"
    using rounded_bounds(2) [OF assms] by (simp only: of_int_le_iff)
  then have "of_int (round_half_even (x / ulp x)) * ulp x \<le> 2 ^ 53 * ulp x"
    using ulp_pos [of x] by simp
  then show "fl x \<le> 2 powi (binade x + 1)" by (simp only: q fl_pos_eq [OF assms])
qed

lemma fl_pos:
  assumes "0 < x" shows "0 < fl x"
proof -
  have "(0::rat) < 2 powi binade x" by simp
  with fl_binade_bounds(1) [OF assms] show ?thesis by linarith
qed

lemma fl_zero [simp]: "fl 0 = 0"
  by (simp add: fl_def)

lemma fl_minus: "fl (- x) = - fl x"
  by (simp add: fl_def sgn_minus)

lemma fl_mono_pos:
  assumes "0 < x" "x \<le> y" shows "fl x \<le> fl y"
proof -
  have ypos: "0 < y" using assms by simp
  show ?thesis
  proof (cases "binade x = binade y")
    case True
    then have u: "ulp x = ulp y" by (simp add: ulp_def)
    have "x / ulp y \<le> y / ulp y"
      using assms(2) ulp_pos [of y] by (simp add: divide_right_mono)
    then have "round_half_even (x / ulp y) \<le> round_half_even (y / ulp y)"
      by (rule round_half_even_mono)
    then have "(of_int (round_half_even (x / ulp y)) :: rat)
               \<le> of_int (round_half_even (y / ulp y))"
      by (simp only: of_int_le_iff)
    then have "of_int (round_half_even (x / ulp y)) * ulp y
               \<le> of_int (round_half_even (y / ulp y)) * ulp y"
      using ulp_pos [of y] by simp
    then show ?thesis by (simp only: fl_pos_eq [OF assms(1)] fl_pos_eq [OF ypos] u)
  next
    case False
    with binade_mono [OF assms] have "binade x + 1 \<le> binade y" by simp
    then have "(2::rat) powi (binade x + 1) \<le> 2 powi binade y"
      by (intro power_int_increasing) simp_all
    with fl_binade_bounds(2) [OF assms(1)] fl_binade_bounds(1) [OF ypos]
    show ?thesis by linarith
  qed
qed

lemma fl_nonneg: "0 \<le> x \<Longrightarrow> 0 \<le> fl x"
  using fl_pos [of x] by (cases "x = 0") (simp_all add: less_le)

lemma fl_mono:
  assumes "x \<le> y" shows "fl x \<le> fl y"
proof -
  consider "0 < x" | "x \<le> 0" "0 \<le> y" | "y < 0" by linarith
  then show ?thesis
  proof cases
    case 1
    then show ?thesis using assms by (rule fl_mono_pos)
  next
    case 2
    have "fl x = - fl (- x)" by (simp add: fl_minus)
    moreover have "0 \<le> fl (- x)" using 2(1) by (intro fl_nonneg) simp
    moreover have "0 \<le> fl y" using 2(2) by (rule fl_nonneg)
    ultimately show ?thesis by linarith
  next
    case 3
    have "fl (- y) \<le> fl (- x)" using 3 assms by (intro fl_mono_pos) simp_all
    then show ?thesis by (simp add: fl_minus)
  qed
qed

lemma fl_error_pos:
  assumes "0 < x" shows "\<bar>fl x - x\<bar> \<le> ulp x / 2"
proof -
  define y where "y = x / ulp x"
  have x: "x = y * ulp x" using ulp_pos [of x] by (simp add: y_def)
  have "\<bar>of_int (round_half_even y) - y\<bar> \<le> 1 / 2"
    using round_half_even_near [of y] by linarith
  then have "\<bar>of_int (round_half_even y) - y\<bar> * ulp x \<le> 1 / 2 * ulp x"
    using ulp_pos [of x] by (intro mult_right_mono) simp_all
  moreover have "fl x - x = (of_int (round_half_even y) - y) * ulp x"
    using x by (simp add: fl_pos_eq [OF assms] y_def [symmetric] algebra_simps)
  ultimately show ?thesis
    using ulp_pos [of x] by (simp add: abs_mult)
qed

lemma half_ulp_below:
  assumes "0 < x" "x < 2 powi j"
  shows "ulp x / 2 \<le> 2 powi (j - 54)"
proof -
  have "2 powi binade x \<le> x" using assms(1) by (rule binade_bounds)
  with assms(2) have "(2::rat) powi binade x < 2 powi j" by linarith
  note lt = this
  have "binade x < j"
  proof (rule ccontr)
    assume "\<not> binade x < j"
    then have "(2::rat) powi j \<le> 2 powi binade x"
      by (intro power_int_increasing) simp_all
    with lt show False by simp
  qed
  then have "binade x - 53 \<le> j - 54" by simp
  then have "(2::rat) powi (binade x - 53) \<le> 2 powi (j - 54)"
    by (intro power_int_increasing) simp_all
  moreover have "ulp x / 2 = 2 powi (binade x - 53)"
  proof -
    have "(2::rat) powi (binade x - 52 - 1) = 2 powi (binade x - 52) / 2 powi 1"
      by (rule power_int_diff) simp
    then show ?thesis by (simp add: ulp_def)
  qed
  ultimately show ?thesis by simp
qed

lemma fl_error_below:
  assumes "\<bar>x\<bar> < 2 powi j"
  shows "\<bar>fl x - x\<bar> \<le> 2 powi (j - 54)"
proof -
  consider "x = 0" | "0 < x" | "x < 0" by linarith
  then show ?thesis
  proof cases
    case 1
    then show ?thesis by simp
  next
    case 2
    with assms have "x < 2 powi j" by simp
    from fl_error_pos [OF 2] half_ulp_below [OF 2 this] show ?thesis by linarith
  next
    case 3
    then have p: "0 < - x" by simp
    with assms have "- x < 2 powi j" by simp
    from fl_error_pos [OF p] half_ulp_below [OF p this]
    have "\<bar>fl (- x) - (- x)\<bar> \<le> 2 powi (j - 54)" by linarith
    moreover have "fl (- x) - (- x) = - (fl x - x)" by (simp add: fl_minus)
    ultimately show ?thesis by (simp only: abs_minus)
  qed
qed

lemma fl_error_2: "\<bar>x\<bar> < 2 \<Longrightarrow> \<bar>fl x - x\<bar> \<le> unit_roundoff"
  using fl_error_below [of x 1] by (simp add: unit_roundoff_def power_int_minus_divide)

lemma fl_error_1024: "\<bar>x\<bar> < 1024 \<Longrightarrow> \<bar>fl x - x\<bar> \<le> 512 * unit_roundoff"
  using fl_error_below [of x 10] by (simp add: unit_roundoff_def power_int_minus_divide)

lemma round_half_even_unique:
  assumes "\<bar>of_int k - y\<bar> < 1 / 2"
  shows "round_half_even y = k"
proof (cases "of_int k \<le> y")
  case True
  with assms have b: "of_int k \<le> y" "y < of_int k + 1 / 2" by linarith+
  then have "\<lfloor>y\<rfloor> = k" by (intro floor_unique) linarith+
  with b show ?thesis by (simp add: round_half_even_def Let_def)
next
  case False
  with assms have b: "of_int k - 1 / 2 < y" "y < of_int k" by linarith+
  have f: "\<lfloor>y\<rfloor> = k - 1"
  proof (rule floor_unique)
    show "of_int (k - 1) \<le> y" using b by simp
    show "y < of_int (k - 1) + 1" using b by simp
  qed
  have "1 / 2 < y - of_int (k - 1)" using b by simp
  then show ?thesis using f by (simp add: round_half_even_def Let_def)
qed

lemma fl_of_int_pos:
  assumes "0 < k" "k < 2 ^ 53"
  shows "fl (of_int k) = of_int k"
proof -
  define x where "x = (of_int k :: rat)"
  have xpos: "0 < x" using assms(1) by (simp add: x_def)
  have x1: "1 \<le> x" using assms(1) by (simp add: x_def)
  have "binade x < 53"
  proof (rule ccontr)
    assume "\<not> binade x < 53"
    then have "(2::rat) powi 53 \<le> 2 powi binade x" by (intro power_int_increasing) simp_all
    moreover have "2 powi binade x \<le> x" using xpos by (rule binade_bounds)
    moreover have "x < 2 ^ 53" using assms(2) unfolding x_def
      by (metis of_int_less_iff of_int_numeral of_int_power)
    ultimately show False by simp
  qed
  define n where "n = nat (52 - binade x)"
  have e: "binade x - 52 = - int n" using \<open>binade x < 53\<close> by (simp add: n_def)
  have u: "ulp x = 1 / 2 ^ n"
    by (simp add: ulp_def e power_int_minus_divide)
  have "x / ulp x = x * 2 ^ n" by (simp add: u)
  also have "\<dots> = of_int (k * 2 ^ n)" by (simp add: x_def)
  finally have "round_half_even (x / ulp x) = k * 2 ^ n" by (simp only: round_half_even_of_int)
  then have "fl x = of_int (k * 2 ^ n) * ulp x" by (simp add: fl_pos_eq [OF xpos])
  moreover have "(of_int (k * 2 ^ n) :: rat) = x * 2 ^ n" by (simp add: x_def)
  ultimately have "fl x = x * 2 ^ n * (1 / 2 ^ n)" by (simp only: u)
  then have "fl x = x" by simp
  then show ?thesis by (simp only: x_def)
qed

lemma fl_of_int:
  assumes "\<bar>k\<bar> < 2 ^ 53"
  shows "fl (of_int k) = of_int k"
proof -
  consider "k = 0" | "0 < k" | "k < 0" by linarith
  then show ?thesis
  proof cases
    case 1
    then show ?thesis by simp
  next
    case 2
    with assms show ?thesis by (intro fl_of_int_pos) simp_all
  next
    case 3
    with assms have "fl (of_int (- k)) = of_int (- k)" by (intro fl_of_int_pos) simp_all
    then show ?thesis by (simp add: fl_minus)
  qed
qed

text \<open>Rounding a perturbed value of a number on a grid.\<close>

lemma round_on_grid:
  fixes y y' :: rat and q a :: int
  assumes q: "0 < q" and grid: "y * of_int q = of_int a"
    and near: "\<bar>y' - y\<bar> * of_int (2 * q) < 1"
  shows "\<bar>of_int (round_half_even y') - y\<bar> \<le> 1 / 2"
    and "frac y \<noteq> 1 / 2 \<Longrightarrow> round_half_even y' = round_half_even y"
proof -
  define k where "k = round_half_even y'"
  define t where "t = 2 * q * k - 2 * a"
  have qpos: "(0::rat) < of_int q" using q by simp
  have t: "of_int t = of_int (2 * q) * (of_int k - y)"
    using grid by (simp add: t_def algebra_simps)
  have "\<bar>of_int k - y'\<bar> \<le> 1 / 2"
    using round_half_even_near [of y'] unfolding k_def by linarith
  then have "\<bar>of_int k - y'\<bar> * of_int (2 * q) \<le> 1 / 2 * of_int (2 * q)"
    using qpos by (intro mult_right_mono) simp_all
  moreover have "\<bar>of_int k - y\<bar> \<le> \<bar>of_int k - y'\<bar> + \<bar>y' - y\<bar>" by linarith
  then have "\<bar>of_int k - y\<bar> * of_int (2 * q)
             \<le> (\<bar>of_int k - y'\<bar> + \<bar>y' - y\<bar>) * of_int (2 * q)"
    using qpos by (intro mult_right_mono) simp_all
  ultimately have "\<bar>of_int k - y\<bar> * of_int (2 * q) < of_int q + 1"
    using near by (simp add: algebra_simps)
  moreover have "\<bar>(of_int t :: rat)\<bar> = \<bar>of_int k - y\<bar> * of_int (2 * q)"
    using qpos by (simp add: t abs_mult)
  ultimately have "\<bar>(of_int t :: rat)\<bar> < of_int (q + 1)" by simp
  then have "(of_int \<bar>t\<bar> :: rat) < of_int (q + 1)" by simp
  then have tq: "\<bar>t\<bar> \<le> q" by linarith
  have scale: "\<bar>of_int k - y\<bar> = of_int \<bar>t\<bar> / of_int (2 * q)"
    using qpos by (simp add: t abs_mult)
  have "(of_int \<bar>t\<bar> :: rat) \<le> of_int q" using tq by (simp only: of_int_le_iff)
  then have "(of_int \<bar>t\<bar> :: rat) / of_int (2 * q) \<le> of_int q / of_int (2 * q)"
    using qpos by (intro divide_right_mono) simp_all
  then show half: "\<bar>of_int (round_half_even y') - y\<bar> \<le> 1 / 2"
    using qpos unfolding k_def [symmetric] scale by simp
  show "round_half_even y' = round_half_even y" if nt: "frac y \<noteq> 1 / 2"
  proof -
    have "\<bar>of_int k - y\<bar> \<noteq> 1 / 2"
    proof
      assume eq: "\<bar>of_int k - y\<bar> = 1 / 2"
      then consider "y = of_int k - 1 / 2" | "y = of_int k + 1 / 2" by linarith
      then show False
      proof cases
        case 1
        then have "y = of_int (k - 1) + 1 / 2" by simp
        then have "frac y = 1 / 2"
          by (metis frac_unique_iff add.commute add_diff_cancel_left' Ints_of_int
              half_gt_zero_iff le_less less_numeral_extra(1) divide_less_eq_1_pos
              one_less_numeral_iff semiring_norm(76) zero_less_numeral)
        with nt show False by simp
      next
        case 2
        then have "frac y = 1 / 2"
          by (metis frac_unique_iff add.commute add_diff_cancel_left' Ints_of_int
              half_gt_zero_iff le_less less_numeral_extra(1) divide_less_eq_1_pos
              one_less_numeral_iff semiring_norm(76) zero_less_numeral)
        with nt show False by simp
      qed
    qed
    with half have "\<bar>of_int k - y\<bar> < 1 / 2" unfolding k_def by linarith
    then have "round_half_even y = k" by (rule round_half_even_unique)
    then show ?thesis by (simp add: k_def)
  qed
qed

lemma unit_roundoff_pos: "0 < unit_roundoff"
  by (simp add: unit_roundoff_def)


section \<open>Properties of the string operations and the sub-scores\<close>

lemma py_in_sublist: "py_in w t \<longleftrightarrow> sublist w t"
  by (induction t) (simp_all add: sublist_Cons_right)

lemma length_split_from:
  "length (split_from w s) = (if w = [] then tokens_after True s else 1 + tokens_after False s)"
  by (induction s arbitrary: w) simp_all

lemma word_count_tokens: "length (py_split s) = tokens_after True s"
  by (simp add: py_split_def length_split_from)

lemma fl_le_fixed: "x \<le> c \<Longrightarrow> fl c = c \<Longrightarrow> fl x \<le> c"
  using fl_mono [of x c] by simp

lemma fl_quarter: "fl (1 / 4) = 1 / 4" by code_simp
lemma fl_half: "fl (1 / 2) = 1 / 2" by code_simp
lemma fl_three_quarters: "fl (3 / 4) = 3 / 4" by code_simp
lemma fl_one: "fl 1 = 1" by code_simp

lemma fmul_quarter_range:
  assumes "0 \<le> a" "a \<le> 1"
  shows "0 \<le> fmul a (1 / 4)" "fmul a (1 / 4) \<le> 1 / 4"
proof -
  show "0 \<le> fmul a (1 / 4)" unfolding fmul_def using assms by (intro fl_nonneg) simp
  show "fmul a (1 / 4) \<le> 1 / 4" unfolding fmul_def
    using assms by (intro fl_le_fixed fl_quarter) simp
qed

lemma weighted_sum_range:
  assumes "0 \<le> a" "a \<le> 1" "0 \<le> b" "b \<le> 1" "0 \<le> c" "c \<le> 1" "0 \<le> d" "d \<le> 1"
  defines "h \<equiv> fadd (fadd (fadd (fmul a (1 / 4)) (fmul b (1 / 4))) (fmul c (1 / 4)))
                   (fmul d (1 / 4))"
  shows "0 \<le> h" "h \<le> 1"
proof -
  note qa = fmul_quarter_range [OF assms(1,2)] and qb = fmul_quarter_range [OF assms(3,4)]
    and qc = fmul_quarter_range [OF assms(5,6)] and qd = fmul_quarter_range [OF assms(7,8)]
  define s1 where "s1 = fadd (fmul a (1 / 4)) (fmul b (1 / 4))"
  define s2 where "s2 = fadd s1 (fmul c (1 / 4))"
  have s1: "0 \<le> s1" "s1 \<le> 1 / 2"
  proof -
    show "0 \<le> s1" unfolding s1_def fadd_def using qa qb by (intro fl_nonneg) simp
    show "s1 \<le> 1 / 2" unfolding s1_def fadd_def
      using qa qb by (intro fl_le_fixed fl_half) simp
  qed
  have s2: "0 \<le> s2" "s2 \<le> 3 / 4"
  proof -
    show "0 \<le> s2" unfolding s2_def fadd_def using s1 qc by (intro fl_nonneg) simp
    show "s2 \<le> 3 / 4" unfolding s2_def fadd_def
      using s1 qc by (intro fl_le_fixed fl_three_quarters) simp
  qed
  have h: "h = fadd s2 (fmul d (1 / 4))" by (simp add: h_def s2_def s1_def)
  show "0 \<le> h" unfolding h fadd_def using s2 qd by (intro fl_nonneg) simp
  show "h \<le> 1" unfolding h fadd_def using s2 qd by (intro fl_le_fixed fl_one) simp
qed

lemma round3_range:
  assumes "0 \<le> x" "x \<le> 1"
  shows "0 \<le> round3 x" "round3 x \<le> 1"
proof -
  have "round_half_even (of_int 0) \<le> round_half_even (x * 1000)"
    using assms by (intro round_half_even_mono) simp
  then have lo: "0 \<le> round_half_even (x * 1000)" by (simp only: round_half_even_of_int)
  have "round_half_even (x * 1000) \<le> round_half_even (of_int 1000)"
    using assms by (intro round_half_even_mono) simp
  then have hi: "round_half_even (x * 1000) \<le> 1000" by (simp only: round_half_even_of_int)
  have "(0::rat) \<le> of_int (round_half_even (x * 1000)) / 1000" using lo by simp
  then show "0 \<le> round3 x" unfolding round3_def by (rule fl_nonneg)
  have "(of_int (round_half_even (x * 1000)) :: rat) \<le> of_int 1000"
    using hi by (simp only: of_int_le_iff)
  then have "(of_int (round_half_even (x * 1000)) :: rat) / 1000 \<le> 1" by simp
  then show "round3 x \<le> 1" unfolding round3_def by (intro fl_le_fixed fl_one)
qed

lemma capped_ratio_range:
  "0 \<le> min 1 (fdiv (float_of_int (int n)) d)" "min 1 (fdiv (float_of_int (int n)) d) \<le> 1"
  if "0 < d"
proof -
  have "0 \<le> float_of_int (int n)" unfolding float_of_int_def by (intro fl_nonneg) simp
  then have "0 \<le> fdiv (float_of_int (int n)) d"
    unfolding fdiv_def using that by (intro fl_nonneg) simp
  then show "0 \<le> min 1 (fdiv (float_of_int (int n)) d)" by simp
  show "min 1 (fdiv (float_of_int (int n)) d) \<le> 1" by simp
qed

lemma length_score_range: "0 \<le> length_score m" "length_score m \<le> 1"
  unfolding length_score_def by (rule capped_ratio_range; simp)+

lemma word_score_range: "0 \<le> word_score m" "word_score m \<le> 1"
  unfolding word_score_def by (rule capped_ratio_range; simp)+

lemma punctuation_score_range: "0 \<le> punctuation_score m" "punctuation_score m \<le> 1"
  unfolding punctuation_score_def by (rule capped_ratio_range; simp)+

lemma sentiment_score_range: "0 \<le> sentiment_score m" "sentiment_score m \<le> 1"
  unfolding sentiment_score_def Let_def by simp_all

lemma pe_sentiment_range: "0 \<le> pe_sentiment m" "pe_sentiment m \<le> 1"
  unfolding pe_sentiment_def by simp_all

lemma calculate_harmony_score_range:
  "0 \<le> calculate_harmony_score m" "calculate_harmony_score m \<le> 1"
  unfolding calculate_harmony_score_def Let_def
  by (intro round3_range weighted_sum_range length_score_range word_score_range
        sentiment_score_range punctuation_score_range)+

lemma calculate_harmony_range:
  "0 \<le> calculate_harmony m" "calculate_harmony m \<le> 1"
  unfolding calculate_harmony_def Let_def
  by (intro round3_range weighted_sum_range capped_ratio_range pe_sentiment_range; simp)+

lemma round3_thousandths:
  assumes "0 \<le> x" "x \<le> 1"
  shows "\<exists>k. 0 \<le> k \<and> k \<le> 1000 \<and> round3 x = fl (of_int k / 1000)"
proof -
  have "round_half_even (of_int 0) \<le> round_half_even (x * 1000)"
    using assms by (intro round_half_even_mono) simp
  then have lo: "0 \<le> round_half_even (x * 1000)" by (simp only: round_half_even_of_int)
  have "round_half_even (x * 1000) \<le> round_half_even (of_int 1000)"
    using assms by (intro round_half_even_mono) simp
  then have hi: "round_half_even (x * 1000) \<le> 1000" by (simp only: round_half_even_of_int)
  from lo hi show ?thesis unfolding round3_def by blast
qed

lemma calculate_harmony_score_thousandths:
  "\<exists>k. 0 \<le> k \<and> k \<le> 1000 \<and> calculate_harmony_score m = fl (of_int k / 1000)"
  unfolding calculate_harmony_score_def Let_def
  by (intro round3_thousandths weighted_sum_range length_score_range word_score_range
        sentiment_score_range punctuation_score_range)

lemma calculate_harmony_thousandths:
  "\<exists>k. 0 \<le> k \<and> k \<le> 1000 \<and> calculate_harmony m = fl (of_int k / 1000)"
  unfolding calculate_harmony_def Let_def
  by (intro round3_thousandths weighted_sum_range capped_ratio_range pe_sentiment_range; simp)

lemma spec_hits_py_in: "spec_hits lexicon text = length (filter (\<lambda>w. py_in w (lower text)) lexicon)"
  by (simp add: spec_hits_def py_in_sublist)

lemma fl_200: "fl 200 = 200" "fl 50 = 50" "fl 5 = 5" "fl 1000 = 1000"
  using fl_of_int [of 200] fl_of_int [of 50] fl_of_int [of 5] fl_of_int [of 1000] by simp_all

lemma capped_ratio_error:
  assumes "0 < d" "d < 2 ^ 53"
  shows "\<bar>min 1 (fdiv (float_of_int (int n)) (of_int d)) - min 1 (of_nat n / of_int d)\<bar>
         \<le> unit_roundoff"
proof (cases "int n < d")
  case True
  then have "\<bar>int n\<bar> < 2 ^ 53" using assms(2) by simp
  then have fn: "float_of_int (int n) = of_nat n"
    using fl_of_int [of "int n"] by (simp add: float_of_int_def)
  define x where "x = (of_nat n :: rat) / of_int d"
  have "(of_nat n :: rat) < of_int d" using True by (metis of_int_less_iff of_int_of_nat_eq)
  then have x: "0 \<le> x" "x < 1" using assms(1) by (simp_all add: x_def)
  then have "fl x \<le> 1" using fl_le_fixed [of x 1] fl_one by simp
  moreover have "\<bar>fl x - x\<bar> \<le> unit_roundoff" using x by (intro fl_error_2) simp
  ultimately show ?thesis using x by (simp add: fn fdiv_def x_def [symmetric])
next
  case False
  then have dn: "d \<le> int n" by simp
  have dd: "fl (of_int d) = of_int d" using assms by (intro fl_of_int) simp
  have "(of_int d :: rat) \<le> of_int (int n)" using dn by (simp only: of_int_le_iff)
  then have le: "(of_int d :: rat) \<le> of_nat n" by simp
  then have "fl (of_int d) \<le> fl (of_nat n)" by (rule fl_mono)
  then have "(of_int d :: rat) \<le> float_of_int (int n)" by (simp add: dd float_of_int_def)
  then have "1 \<le> float_of_int (int n) / of_int d" using assms(1) by simp
  then have "fl 1 \<le> fl (float_of_int (int n) / of_int d)" by (rule fl_mono)
  then have "1 \<le> fdiv (float_of_int (int n)) (of_int d)" by (simp add: fl_one fdiv_def)
  moreover have "1 \<le> (of_nat n :: rat) / of_int d" using le assms(1) by simp
  ultimately show ?thesis using unit_roundoff_pos by simp
qed

lemma clamp_error:
  "\<bar>max 0 (min 1 a) - spec_clamp 0 1 b\<bar> \<le> \<bar>a - b\<bar>"
  unfolding spec_clamp_def max_def min_def by (simp; linarith)

lemma sentiment_error:
  assumes "\<bar>d\<bar> \<le> 7"
  shows "\<bar>max 0 (min 1 (fadd (fdiv (float_of_int d) 10) (1 / 2)))
          - spec_clamp 0 1 (1 / 2 + of_int d / 10)\<bar> \<le> 2 * unit_roundoff"
proof -
  have fd: "float_of_int d = of_int d"
    using assms fl_of_int [of d] by (simp add: float_of_int_def)
  define x where "x = (of_int d :: rat) / 10"
  have "\<bar>(of_int d :: rat)\<bar> \<le> 7" using assms by (metis of_int_abs of_int_le_iff of_int_numeral)
  then have x: "\<bar>x\<bar> \<le> 7 / 10" by (simp add: x_def)
  then have e1: "\<bar>fl x - x\<bar> \<le> unit_roundoff" by (intro fl_error_2) simp
  have "unit_roundoff < 1 / 10" by (simp add: unit_roundoff_def)
  with x e1 have "\<bar>fl x + 1 / 2\<bar> < 2" by linarith
  then have e2: "\<bar>fl (fl x + 1 / 2) - (fl x + 1 / 2)\<bar> \<le> unit_roundoff" by (rule fl_error_2)
  from e1 e2 have "\<bar>fl (fl x + 1 / 2) - (1 / 2 + x)\<bar> \<le> 2 * unit_roundoff" by linarith
  with clamp_error [of "fl (fl x + 1 / 2)" "1 / 2 + x"]
  show ?thesis by (simp add: fadd_def fdiv_def fd x_def [symmetric])
qed

lemma quarter_error:
  assumes "0 \<le> a'" "a' \<le> 1" "\<bar>a' - a\<bar> \<le> e"
  shows "\<bar>fmul a' (1 / 4) - 1 / 4 * a\<bar> \<le> e + unit_roundoff"
    and "0 \<le> fmul a' (1 / 4)" and "fmul a' (1 / 4) \<le> 1 / 4"
proof -
  have "\<bar>fl (a' * (1 / 4)) - a' * (1 / 4)\<bar> \<le> unit_roundoff" using assms(1,2) by (intro fl_error_2) simp
  with assms(3) show "\<bar>fmul a' (1 / 4) - 1 / 4 * a\<bar> \<le> e + unit_roundoff"
    unfolding fmul_def by linarith
  show "0 \<le> fmul a' (1 / 4)" unfolding fmul_def using assms(1) by (intro fl_nonneg) simp
  show "fmul a' (1 / 4) \<le> 1 / 4" unfolding fmul_def
    using assms(2) by (intro fl_le_fixed fl_quarter) simp
qed

lemma sum_error:
  assumes "0 \<le> x'" "x' \<le> p" "0 \<le> y'" "y' \<le> q" "p + q \<le> 1" "fl (p + q) = p + q"
    and "\<bar>x' - x\<bar> \<le> ex" "\<bar>y' - y\<bar> \<le> ey"
  shows "\<bar>fadd x' y' - (x + y)\<bar> \<le> ex + ey + unit_roundoff"
    and "0 \<le> fadd x' y'" and "fadd x' y' \<le> p + q"
proof -
  have "\<bar>fl (x' + y') - (x' + y')\<bar> \<le> unit_roundoff" using assms(1-5) by (intro fl_error_2) simp
  with assms(7,8) show "\<bar>fadd x' y' - (x + y)\<bar> \<le> ex + ey + unit_roundoff"
    unfolding fadd_def by linarith
  show "0 \<le> fadd x' y'" unfolding fadd_def using assms(1,3) by (intro fl_nonneg) simp
  have "x' + y' \<le> p + q" using assms(2,4) by simp
  then show "fadd x' y' \<le> p + q" unfolding fadd_def
    using assms(6) by (rule fl_le_fixed)
qed

lemma weighted_error:
  assumes a: "0 \<le> a'" "a' \<le> 1" "\<bar>a' - a\<bar> \<le> 2 * unit_roundoff"
    and b: "0 \<le> b'" "b' \<le> 1" "\<bar>b' - b\<bar> \<le> 2 * unit_roundoff"
    and c: "0 \<le> c'" "c' \<le> 1" "\<bar>c' - c\<bar> \<le> 2 * unit_roundoff"
    and d: "0 \<le> d'" "d' \<le> 1" "\<bar>d' - d\<bar> \<le> 2 * unit_roundoff"
  shows "\<bar>fadd (fadd (fadd (fmul a' (1 / 4)) (fmul b' (1 / 4))) (fmul c' (1 / 4)))
                (fmul d' (1 / 4))
          - (1 / 4 * a + 1 / 4 * b + 1 / 4 * c + 1 / 4 * d)\<bar> \<le> 16 * unit_roundoff"
proof -
  note qa = quarter_error [OF a] and qb = quarter_error [OF b]
    and qc = quarter_error [OF c] and qd = quarter_error [OF d]
  have h1: "(1 / 4 + 1 / 4 :: rat) \<le> 1" "fl (1 / 4 + 1 / 4) = 1 / 4 + 1 / 4"
    by (simp_all add: fl_half)
  note s1 = sum_error [OF qa(2) qa(3) qb(2) qb(3) h1 qa(1) qb(1)]
  have h2: "(1 / 4 + 1 / 4 + 1 / 4 :: rat) \<le> 1"
    "fl (1 / 4 + 1 / 4 + 1 / 4) = 1 / 4 + 1 / 4 + 1 / 4"
    by (simp_all add: fl_three_quarters)
  note s2 = sum_error [OF s1(2) s1(3) qc(2) qc(3) h2 s1(1) qc(1)]
  have h3: "(1 / 4 + 1 / 4 + 1 / 4 + 1 / 4 :: rat) \<le> 1"
    "fl (1 / 4 + 1 / 4 + 1 / 4 + 1 / 4) = 1 / 4 + 1 / 4 + 1 / 4 + 1 / 4"
    by (simp_all add: fl_one)
  note s3 = sum_error [OF s2(2) s2(3) qd(2) qd(3) h3 s2(1) qd(1)]
  from s3(1) show ?thesis by simp
qed

lemma hit_difference_bound:
  assumes "length pos \<le> 7" "length neg \<le> 7"
  shows "\<bar>int (length (filter P pos)) - int (length (filter Q neg))\<bar> \<le> 7"
proof -
  have "length (filter P pos) \<le> 7" "length (filter Q neg) \<le> 7"
    using assms length_filter_le [of P pos] length_filter_le [of Q neg] by linarith+
  then show ?thesis by linarith
qed

lemma capped_grid:
  assumes "0 < d"
  shows "\<exists>j. 0 \<le> j \<and> j \<le> d \<and> min 1 (of_nat n / of_int d) * of_int d = (of_int j :: rat)"
proof (cases "int n \<le> d")
  case True
  then have "(of_int (int n) :: rat) \<le> of_int d" by (simp only: of_int_le_iff)
  then have "(of_nat n :: rat) / of_int d \<le> 1" using assms by simp
  then have "min 1 ((of_nat n :: rat) / of_int d) * of_int d = of_int (int n)"
    using assms by (simp add: min_def)
  with True show ?thesis by (intro exI [of _ "int n"]) simp
next
  case False
  then have "(of_int d :: rat) \<le> of_int (int n)" by (simp only: of_int_le_iff)
  then have "1 \<le> (of_nat n :: rat) / of_int d" using assms by simp
  then have "min 1 ((of_nat n :: rat) / of_int d) * of_int d = of_int d" by (simp add: min_def)
  with assms show ?thesis by (intro exI [of _ d]) simp
qed

lemma clamp_grid:
  "\<exists>j. 0 \<le> j \<and> j \<le> 10 \<and> spec_clamp 0 1 (1 / 2 + of_int d / 10) * 10 = (of_int j :: rat)"
proof -
  consider "d < - 5" | "5 < d" | "- 5 \<le> d" "d \<le> 5" by linarith
  then show ?thesis
  proof cases
    case 1
    then have "(of_int d :: rat) < of_int (- 5)" by (simp only: of_int_less_iff)
    then have "spec_clamp 0 1 (1 / 2 + of_int d / 10) = 0" by (simp add: spec_clamp_def)
    then show ?thesis by (intro exI [of _ 0]) simp
  next
    case 2
    then have "(of_int 5 :: rat) < of_int d" by (simp only: of_int_less_iff)
    then have "spec_clamp 0 1 (1 / 2 + of_int d / 10) = 1" by (simp add: spec_clamp_def)
    then show ?thesis by (intro exI [of _ 10]) simp
  next
    case 3
    then have "(of_int (- 5) :: rat) \<le> of_int d" "(of_int d :: rat) \<le> of_int 5"
      by (simp_all only: of_int_le_iff)
    then have "spec_clamp 0 1 (1 / 2 + of_int d / 10) = 1 / 2 + of_int d / 10"
      by (simp add: spec_clamp_def)
    with 3 show ?thesis by (intro exI [of _ "5 + d"]) simp
  qed
qed

lemma spec_average_grid:
  "\<exists>m. 0 \<le> m \<and> m \<le> 4000 \<and> spec_average pos neg text * 4000 = of_int m"
proof -
  obtain a where a: "0 \<le> a" "a \<le> 200"
    "min 1 (of_nat (length text) / of_int 200) * of_int 200 = (of_int a :: rat)"
    using capped_grid [of 200 "length text"] by auto
  obtain b where b: "0 \<le> b" "b \<le> 50"
    "min 1 (of_nat (tokens_after True text) / of_int 50) * of_int 50 = (of_int b :: rat)"
    using capped_grid [of 50 "tokens_after True text"] by auto
  obtain c where c: "0 \<le> c" "c \<le> 10"
    "spec_clamp 0 1 (1 / 2 + of_int (int (spec_hits pos text) - int (spec_hits neg text)) / 10) * 10
     = (of_int c :: rat)"
    using clamp_grid [of "int (spec_hits pos text) - int (spec_hits neg text)"] by auto
  obtain d where d: "0 \<le> d" "d \<le> 5"
    "min 1 (of_nat (length (filter (\<lambda>c. c \<in> set ''.,!?;:'') text)) / of_int 5) * of_int 5
     = (of_int d :: rat)"
    using capped_grid [of 5 "length (filter (\<lambda>c. c \<in> set ''.,!?;:'') text)"] by auto
  define L where "L = min 1 ((of_nat (length text) :: rat) / 200)"
  define W where "W = min 1 ((of_nat (tokens_after True text) :: rat) / 50)"
  define S where "S = spec_clamp 0 1
    (1 / 2 + of_int (int (spec_hits pos text) - int (spec_hits neg text)) / 10)"
  define P where "P = min 1
    ((of_nat (length (filter (\<lambda>c. c \<in> set ''.,!?;:'') text)) :: rat) / 5)"
  have e: "L * 200 = of_int a" "W * 50 = of_int b" "S * 10 = of_int c" "P * 5 = of_int d"
    using a(3) b(3) c(3) d(3) by (simp_all add: L_def W_def S_def P_def)
  have "spec_average pos neg text = 1 / 4 * L + 1 / 4 * W + 1 / 4 * S + 1 / 4 * P"
    by (simp add: spec_average_def Let_def L_def W_def S_def P_def)
  then have "spec_average pos neg text * 4000
             = 5 * (L * 200) + 20 * (W * 50) + 100 * (S * 10) + 200 * (P * 5)" by simp
  also have "\<dots> = of_int (5 * a + 20 * b + 100 * c + 200 * d)" by (simp add: e)
  finally have "spec_average pos neg text * 4000 = of_int (5 * a + 20 * b + 100 * c + 200 * d)" .
  moreover have "0 \<le> 5 * a + 20 * b + 100 * c + 200 * d" "5 * a + 20 * b + 100 * c + 200 * d \<le> 4000"
    using a b c d by linarith+
  ultimately show ?thesis by blast
qed

lemma spec_average_range: "0 \<le> spec_average pos neg text" "spec_average pos neg text \<le> 1"
proof -
  obtain m where m: "0 \<le> m" "m \<le> 4000" "spec_average pos neg text * 4000 = of_int m"
    using spec_average_grid by blast
  have "(0::rat) \<le> of_int m" "(of_int m :: rat) \<le> of_int 4000"
    using m(1,2) by (simp_all only: of_int_le_iff of_int_0_le_iff)
  then have "0 \<le> spec_average pos neg text * 4000" "spec_average pos neg text * 4000 \<le> 4000"
    by (simp_all add: m(3))
  then show "0 \<le> spec_average pos neg text" "spec_average pos neg text \<le> 1" by simp_all
qed

lemma round3_nearest:
  fixes A h :: rat
  assumes grid: "A * 4000 = of_int m" and err: "\<bar>h - A\<bar> \<le> 16 * unit_roundoff"
    and range: "0 \<le> A" "A \<le> 1"
  shows "0 \<le> round_half_even (h * 1000)" "round_half_even (h * 1000) \<le> 1000"
    and "\<bar>of_int (round_half_even (h * 1000)) - A * 1000\<bar> \<le> 1 / 2"
    and "frac (A * 1000) \<noteq> 1 / 2 \<Longrightarrow>
         round3 h = fl (of_int (round_half_even (A * 1000)) / 1000)"
proof -
  have g: "A * 1000 * of_int 4 = of_int m" using grid by simp
  have "h * 1000 - A * 1000 = (h - A) * 1000" by (simp only: left_diff_distrib)
  then have "\<bar>h * 1000 - A * 1000\<bar> = \<bar>h - A\<bar> * \<bar>1000\<bar>" by (simp only: abs_mult)
  then have "\<bar>h * 1000 - A * 1000\<bar> = \<bar>h - A\<bar> * 1000" by simp
  also have "\<dots> \<le> 16 * unit_roundoff * 1000" using err by simp
  finally have "\<bar>h * 1000 - A * 1000\<bar> * of_int (2 * 4) \<le> 16 * unit_roundoff * 1000 * 8" by simp
  also have "\<dots> < 1" by (simp add: unit_roundoff_def)
  finally have near: "\<bar>h * 1000 - A * 1000\<bar> * of_int (2 * 4) < 1" .
  note r = round_on_grid [of 4 "A * 1000" m "h * 1000", OF _ g near]
  from r(1) show n: "\<bar>of_int (round_half_even (h * 1000)) - A * 1000\<bar> \<le> 1 / 2" by simp
  have "- 1 < (of_int (round_half_even (h * 1000)) :: rat)" using n range by linarith
  then have "(of_int (- 1) :: rat) < of_int (round_half_even (h * 1000))" by simp
  then have "- 1 < round_half_even (h * 1000)" by (simp only: of_int_less_iff)
  then show "0 \<le> round_half_even (h * 1000)" by simp
  have "(of_int (round_half_even (h * 1000)) :: rat) < 1001" using n range by linarith
  then have "(of_int (round_half_even (h * 1000)) :: rat) < of_int 1001" by simp
  then have "round_half_even (h * 1000) < 1001" by (simp only: of_int_less_iff)
  then show "round_half_even (h * 1000) \<le> 1000" by simp
  assume "frac (A * 1000) \<noteq> 1 / 2"
  with r(2) show "round3 h = fl (of_int (round_half_even (A * 1000)) / 1000)"
    by (simp add: round3_def)
qed

lemma score_error:
  assumes "\<bar>d\<bar> \<le> 7"
  shows "\<bar>fadd (fadd (fadd (fmul (min 1 (fdiv (float_of_int (int n)) 200)) (1 / 4))
                           (fmul (min 1 (fdiv (float_of_int (int w)) 50)) (1 / 4)))
                     (fmul (max 0 (min 1 (fadd (fdiv (float_of_int d) 10) (1 / 2)))) (1 / 4)))
               (fmul (min 1 (fdiv (float_of_int (int p)) 5)) (1 / 4))
          - (1 / 4 * min 1 (of_nat n / 200) + 1 / 4 * min 1 (of_nat w / 50)
             + 1 / 4 * spec_clamp 0 1 (1 / 2 + of_int d / 10)
             + 1 / 4 * min 1 (of_nat p / 5))\<bar> \<le> 16 * unit_roundoff"
proof -
  have u: "unit_roundoff \<le> 2 * unit_roundoff" using unit_roundoff_pos by simp
  have a: "\<bar>min 1 (fdiv (float_of_int (int n)) 200) - min 1 (of_nat n / 200)\<bar>
           \<le> 2 * unit_roundoff"
    using capped_ratio_error [of 200 n] u by simp
  have b: "\<bar>min 1 (fdiv (float_of_int (int w)) 50) - min 1 (of_nat w / 50)\<bar>
           \<le> 2 * unit_roundoff"
    using capped_ratio_error [of 50 w] u by simp
  have d: "\<bar>min 1 (fdiv (float_of_int (int p)) 5) - min 1 (of_nat p / 5)\<bar>
           \<le> 2 * unit_roundoff"
    using capped_ratio_error [of 5 p] u by simp
  have r: "0 \<le> min 1 (fdiv (float_of_int (int k)) 200)" "min 1 (fdiv (float_of_int (int k)) 200) \<le> 1"
    "0 \<le> min 1 (fdiv (float_of_int (int k)) 50)" "min 1 (fdiv (float_of_int (int k)) 50) \<le> 1"
    "0 \<le> min 1 (fdiv (float_of_int (int k)) 5)" "min 1 (fdiv (float_of_int (int k)) 5) \<le> 1"
    for k
    by (intro capped_ratio_range; simp)+
  have s: "0 \<le> max 0 (min 1 (fadd (fdiv (float_of_int d) 10) (1 / 2)))"
    "max 0 (min 1 (fadd (fdiv (float_of_int d) 10) (1 / 2))) \<le> 1" by simp_all
  show ?thesis
    by (rule weighted_error [OF r(1,2) a r(3,4) b s sentiment_error [OF assms] r(5,6) d])
qed

lemma calculate_harmony_score_raw:
  "\<exists>h. calculate_harmony_score text = round3 h
       \<and> \<bar>h - spec_average positive_words negative_words text\<bar> \<le> 16 * unit_roundoff"
proof -
  have d: "\<bar>int (positive_count text) - int (negative_count text)\<bar> \<le> 7"
    unfolding positive_count_def negative_count_def
    by (rule hit_difference_bound) (simp_all add: positive_words_def negative_words_def)
  have A: "spec_average positive_words negative_words text
           = 1 / 4 * min 1 (of_nat (length text) / 200)
             + 1 / 4 * min 1 (of_nat (word_count text) / 50)
             + 1 / 4 * spec_clamp 0 1
                 (1 / 2 + of_int (int (positive_count text) - int (negative_count text)) / 10)
             + 1 / 4 * min 1 (of_nat (punctuation_count text) / 5)"
    unfolding spec_average_def Let_def word_count_def word_count_tokens positive_count_def
      negative_count_def spec_hits_py_in punctuation_count_def ..
  show ?thesis
    unfolding calculate_harmony_score_def Let_def length_score_def word_score_def
      sentiment_score_def punctuation_score_def A
    by (rule exI, rule conjI, rule refl, rule score_error [OF d])
qed

lemma calculate_harmony_raw:
  "\<exists>h. calculate_harmony text = round3 h
       \<and> \<bar>h - spec_average pe_positive_words pe_negative_words text\<bar> \<le> 16 * unit_roundoff"
proof -
  have d: "\<bar>int (pe_positive text) - int (pe_negative text)\<bar> \<le> 7"
    unfolding pe_positive_def pe_negative_def
    by (rule hit_difference_bound) (simp_all add: pe_positive_words_def pe_negative_words_def)
  have A: "spec_average pe_positive_words pe_negative_words text
           = 1 / 4 * min 1 (of_nat (length text) / 200)
             + 1 / 4 * min 1 (of_nat (length (py_split text)) / 50)
             + 1 / 4 * spec_clamp 0 1
                 (1 / 2 + of_int (int (pe_positive text) - int (pe_negative text)) / 10)
             + 1 / 4 * min 1 (of_nat (length (filter (\<lambda>c. c \<in> set ''.,!?;:'') text)) / 5)"
    unfolding spec_average_def Let_def word_count_tokens pe_positive_def
      pe_negative_def spec_hits_py_in ..
  show ?thesis
    unfolding calculate_harmony_def Let_def pe_sentiment_def A
    by (rule exI, rule conjI, rule refl, rule score_error [OF d])
qed

lemma rounded_average:
  assumes "\<bar>h - spec_average pos neg text\<bar> \<le> 16 * unit_roundoff"
  shows "\<exists>k. 0 \<le> k \<and> k \<le> 1000 \<and> round3 h = fl (of_int k / 1000)
             \<and> \<bar>of_int k - spec_average pos neg text * 1000\<bar> \<le> 1 / 2"
    and "frac (spec_average pos neg text * 1000) \<noteq> 1 / 2 \<Longrightarrow>
         round3 h = fl (spec_score pos neg text)"
proof -
  obtain m where m: "spec_average pos neg text * 4000 = of_int m"
    using spec_average_grid by blast
  note r = round3_nearest [OF m assms spec_average_range]
  have "round3 h = fl (of_int (round_half_even (h * 1000)) / 1000)" by (simp only: round3_def)
  with r(1,2,3)
  show "\<exists>k. 0 \<le> k \<and> k \<le> 1000 \<and> round3 h = fl (of_int k / 1000)
             \<and> \<bar>of_int k - spec_average pos neg text * 1000\<bar> \<le> 1 / 2" by blast
  assume "frac (spec_average pos neg text * 1000) \<noteq> 1 / 2"
  then show "round3 h = fl (spec_score pos neg text)"
    unfolding spec_score_def by (rule r(4))
qed

lemma calculate_harmony_score_nearest:
  "\<exists>k. 0 \<le> k \<and> k \<le> 1000 \<and> calculate_harmony_score text = fl (of_int k / 1000)
       \<and> \<bar>of_int k - spec_average positive_words negative_words text * 1000\<bar> \<le> 1 / 2"
  "frac (spec_average positive_words negative_words text * 1000) \<noteq> 1 / 2 \<Longrightarrow>
   calculate_harmony_score text = fl (spec_score positive_words negative_words text)"
proof -
  obtain h where h: "calculate_harmony_score text = round3 h"
    "\<bar>h - spec_average positive_words negative_words text\<bar> \<le> 16 * unit_roundoff"
    using calculate_harmony_score_raw by blast
  show "\<exists>k. 0 \<le> k \<and> k \<le> 1000 \<and> calculate_harmony_score text = fl (of_int k / 1000)
       \<and> \<bar>of_int k - spec_average positive_words negative_words text * 1000\<bar> \<le> 1 / 2"
    unfolding h(1) by (rule rounded_average(1) [OF h(2)])
  assume "frac (spec_average positive_words negative_words text * 1000) \<noteq> 1 / 2"
  then show "calculate_harmony_score text
             = fl (spec_score positive_words negative_words text)"
    unfolding h(1) by (rule rounded_average(2) [OF h(2)])
qed

lemma calculate_harmony_nearest:
  "\<exists>k. 0 \<le> k \<and> k \<le> 1000 \<and> calculate_harmony text = fl (of_int k / 1000)
       \<and> \<bar>of_int k - spec_average pe_positive_words pe_negative_words text * 1000\<bar> \<le> 1 / 2"
  "frac (spec_average pe_positive_words pe_negative_words text * 1000) \<noteq> 1 / 2 \<Longrightarrow>
   calculate_harmony text = fl (spec_score pe_positive_words pe_negative_words text)"
proof -
  obtain h where h: "calculate_harmony text = round3 h"
    "\<bar>h - spec_average pe_positive_words pe_negative_words text\<bar> \<le> 16 * unit_roundoff"
    using calculate_harmony_raw by blast
  show "\<exists>k. 0 \<le> k \<and> k \<le> 1000 \<and> calculate_harmony text = fl (of_int k / 1000)
       \<and> \<bar>of_int k - spec_average pe_positive_words pe_negative_words text * 1000\<bar> \<le> 1 / 2"
    unfolding h(1) by (rule rounded_average(1) [OF h(2)])
  assume "frac (spec_average pe_positive_words pe_negative_words text * 1000) \<noteq> 1 / 2"
  then show "calculate_harmony text
             = fl (spec_score pe_positive_words pe_negative_words text)"
    unfolding h(1) by (rule rounded_average(2) [OF h(2)])
qed

lemma spec_score_empty:
  "spec_score positive_words negative_words [] = 1 / 8"
  "spec_score pe_positive_words pe_negative_words [] = 1 / 8"
  by code_simp+

lemma wow_code: "calculate_harmony_score ''Wow!!!'' = fl (287 / 1000)" by code_simp

lemma wow_spec:
  "spec_average positive_words negative_words ''Wow!!!'' = 23 / 80"
  "spec_average pe_positive_words pe_negative_words ''Wow!!!'' = 23 / 80"
  "spec_score positive_words negative_words ''Wow!!!'' = 288 / 1000"
  "spec_score pe_positive_words pe_negative_words ''Wow!!!'' = 288 / 1000"
  by code_simp+

lemma wow_no_lexicon: "py_in ''please'' (lower ''Wow!!!'') = py_in ''sorry'' (lower ''Wow!!!'')"
  by code_simp

lemma fl_287_288: "fl (287 / 1000) < fl (288 / 1000)" by code_simp

lemma ab_code: "calculate_harmony_score ''ab'' = fl (133 / 1000)" by code_simp

lemma ab_spec:
  "spec_average positive_words negative_words ''ab'' = 53 / 400"
  "spec_score positive_words negative_words ''ab'' = 132 / 1000"
  by code_simp+

lemma hello_there_spec:
  "frac (spec_average positive_words negative_words ''Hello there!'' * 1000) \<noteq> 1 / 2"
  "frac (spec_average pe_positive_words pe_negative_words ''Hello there!'' * 1000) \<noteq> 1 / 2"
  "spec_score positive_words negative_words ''Hello there!'' = 1 / 5"
  "spec_score pe_positive_words pe_negative_words ''Hello there!'' = 1 / 5"
  by code_simp+

lemma calculate_harmony_score_empty: "calculate_harmony_score [] = 1 / 8" by code_simp
lemma calculate_harmony_empty: "calculate_harmony [] = 1 / 8" by code_simp


section \<open>Properties of the thresholds\<close>

lemma fl_thousandths_gt:
  assumes "fl (of_int (c + 1) / 1000) > fl (of_int c / 1000)"
  shows "(fl (of_int c / 1000) < fl (of_int k / 1000)) = (c < k)"
proof (cases "c < k")
  case True
  then have "(of_int (c + 1) :: rat) / 1000 \<le> of_int k / 1000" by simp
  then have "fl (of_int (c + 1) / 1000) \<le> fl (of_int k / 1000)" by (rule fl_mono)
  with assms True show ?thesis by simp
next
  case False
  then have "(of_int k :: rat) / 1000 \<le> of_int c / 1000" by simp
  then have "fl (of_int k / 1000) \<le> fl (of_int c / 1000)" by (rule fl_mono)
  with False show ?thesis by simp
qed

lemma step_800: "fl (of_int (800 + 1) / 1000) > fl (of_int 800 / 1000)" by code_simp
lemma step_600: "fl (of_int (600 + 1) / 1000) > fl (of_int 600 / 1000)" by code_simp
lemma step_400: "fl (of_int (400 + 1) / 1000) > fl (of_int 400 / 1000)" by code_simp

lemma threshold_thousandths:
  "(fl (8 / 10) < fl (of_int k / 1000)) = (800 < k)"
  "(fl (6 / 10) < fl (of_int k / 1000)) = (600 < k)"
  "(fl (4 / 10) < fl (of_int k / 1000)) = (400 < k)"
  using fl_thousandths_gt [OF step_800, of k] fl_thousandths_gt [OF step_600, of k]
    fl_thousandths_gt [OF step_400, of k]
  by simp_all

lemma thresholds_ordered: "fl (4 / 10) < fl (6 / 10)" "fl (6 / 10) < fl (8 / 10)"
  by code_simp+

lemma route_bands:
  "(snd (merkabah_route s) = ''ARCHIVE'') = (fl (8 / 10) < s)"
  "(snd (merkabah_route s) = ''VERIFY'') = (fl (6 / 10) < s \<and> s \<le> fl (8 / 10))"
  "(snd (merkabah_route s) = ''PROCESS'') = (fl (4 / 10) < s \<and> s \<le> fl (6 / 10))"
  "(snd (merkabah_route s) = ''REVIEW'') = (s \<le> fl (4 / 10))"
  using thresholds_ordered by (auto simp: merkabah_route_def)

lemma face_bands:
  "(assign_face s = ''EAGLE'') = (fl (8 / 10) < s)"
  "(assign_face s = ''LION'') = (fl (6 / 10) < s \<and> s \<le> fl (8 / 10))"
  "(assign_face s = ''OX'') = (fl (4 / 10) < s \<and> s \<le> fl (6 / 10))"
  "(assign_face s = ''MAN'') = (s \<le> fl (4 / 10))"
  using thresholds_ordered by (auto simp: assign_face_def)

lemma route_face: "fst (merkabah_route s) = assign_face s"
  by (simp add: merkabah_route_def assign_face_def)

lemma route_total:
  "snd (merkabah_route s) \<in> set [''ARCHIVE'', ''VERIFY'', ''PROCESS'', ''REVIEW'']"
  by (simp add: merkabah_route_def)

lemma route_thousandths:
  "snd (merkabah_route (fl (of_int k / 1000))) =
     (if 800 < k then ''ARCHIVE'' else if 600 < k then ''VERIFY''
      else if 400 < k then ''PROCESS'' else ''REVIEW'')"
  unfolding merkabah_route_def threshold_thousandths by simp

lemma route_examples:
  "snd (merkabah_route (fl (81 / 100))) = ''ARCHIVE''"
  "snd (merkabah_route (fl (8 / 10))) = ''VERIFY''"
  "snd (merkabah_route (fl (6 / 10))) = ''PROCESS''"
  "snd (merkabah_route (fl (4 / 10))) = ''REVIEW''"
  "snd (merkabah_route 0) = ''REVIEW''"
  using route_thousandths [of 810] route_thousandths [of 800] route_thousandths [of 600]
    route_thousandths [of 400] route_thousandths [of 0]
  by simp_all

lemma pipe_action:
  "action (pipe_through_merkabah t m) = snd (merkabah_route (calculate_harmony_score m))"
  "assigned_face (pipe_through_merkabah t m) = fst (merkabah_route (calculate_harmony_score m))"
  by (simp_all add: pipe_through_merkabah_def Let_def split: prod.splits)


section \<open>Properties of the sentiment sub-score and the lexicons\<close>

lemma sentiment_expr_mono:
  assumes "j \<le> k"
  shows "max 0 (min 1 (fadd (fdiv (float_of_int j) 10) (1 / 2)))
         \<le> max 0 (min 1 (fadd (fdiv (float_of_int k) 10) (1 / 2)))"
proof -
  have "float_of_int j \<le> float_of_int k"
    unfolding float_of_int_def using assms by (intro fl_mono) simp
  then have "fdiv (float_of_int j) 10 \<le> fdiv (float_of_int k) 10"
    unfolding fdiv_def by (intro fl_mono) simp
  then have "fadd (fdiv (float_of_int j) 10) (1 / 2) \<le> fadd (fdiv (float_of_int k) 10) (1 / 2)"
    unfolding fadd_def by (intro fl_mono) simp
  then show ?thesis by (simp add: max_def min_def)
qed

lemma sentiment_expr_4: "max 0 (min 1 (fadd (fdiv (float_of_int 4) 10) (1 / 2))) < 1"
  by code_simp

lemma sentiment_expr_5: "max 0 (min 1 (fadd (fdiv (float_of_int 5) 10) (1 / 2))) = 1"
  by code_simp

lemma sentiment_expr_saturated:
  "(max 0 (min 1 (fadd (fdiv (float_of_int k) 10) (1 / 2))) = 1) = (5 \<le> k)"
proof (cases "5 \<le> k")
  case True
  from sentiment_expr_mono [OF True] sentiment_expr_5
  have "1 \<le> max 0 (min 1 (fadd (fdiv (float_of_int k) 10) (1 / 2)))" by simp
  moreover have "max 0 (min 1 (fadd (fdiv (float_of_int k) 10) (1 / 2))) \<le> 1" by simp
  ultimately show ?thesis using True by simp
next
  case False
  then have "k \<le> 4" by simp
  from sentiment_expr_mono [OF this] sentiment_expr_4
  have "max 0 (min 1 (fadd (fdiv (float_of_int k) 10) (1 / 2))) < 1" by simp
  with False show ?thesis by simp
qed

lemma sentiment_score_mono:
  assumes "positive_count a \<le> positive_count b" "negative_count a = negative_count b"
  shows "sentiment_score a \<le> sentiment_score b"
  unfolding sentiment_score_def Let_def using assms by (intro sentiment_expr_mono) simp

lemma pe_sentiment_mono:
  assumes "pe_positive a \<le> pe_positive b" "pe_negative a = pe_negative b"
  shows "pe_sentiment a \<le> pe_sentiment b"
  unfolding pe_sentiment_def using assms by (intro sentiment_expr_mono) simp

lemma sentiment_score_saturated:
  "(sentiment_score a = 1) = (5 \<le> int (positive_count a) - int (negative_count a))"
  unfolding sentiment_score_def Let_def by (rule sentiment_expr_saturated)

lemma pe_sentiment_saturated:
  "(pe_sentiment a = 1) = (5 \<le> int (pe_positive a) - int (pe_negative a))"
  unfolding pe_sentiment_def by (rule sentiment_expr_saturated)

lemma sentiment_expr_strict:
  assumes "j < k" "- 5 \<le> j" "k \<le> 5"
  shows "max 0 (min 1 (fadd (fdiv (float_of_int j) 10) (1 / 2)))
         < max 0 (min 1 (fadd (fdiv (float_of_int k) 10) (1 / 2)))"
proof -
  have ej: "\<bar>max 0 (min 1 (fadd (fdiv (float_of_int j) 10) (1 / 2)))
             - spec_clamp 0 1 (1 / 2 + of_int j / 10)\<bar> \<le> 2 * unit_roundoff"
    using assms by (intro sentiment_error) simp
  have ek: "\<bar>max 0 (min 1 (fadd (fdiv (float_of_int k) 10) (1 / 2)))
             - spec_clamp 0 1 (1 / 2 + of_int k / 10)\<bar> \<le> 2 * unit_roundoff"
    using assms by (intro sentiment_error) simp
  have "(of_int (- 5) :: rat) \<le> of_int j" "(of_int j :: rat) \<le> of_int 5"
    "(of_int (- 5) :: rat) \<le> of_int k" "(of_int k :: rat) \<le> of_int 5"
    "(of_int (j + 1) :: rat) \<le> of_int k"
    using assms by (simp_all only: of_int_le_iff)
  then have b: "- 5 \<le> (of_int j :: rat)" "(of_int j :: rat) \<le> 5"
    "- 5 \<le> (of_int k :: rat)" "(of_int k :: rat) \<le> 5" "(of_int j :: rat) + 1 \<le> of_int k"
    by simp_all
  have cj: "spec_clamp 0 1 (1 / 2 + of_int j / 10) = 1 / 2 + of_int j / 10"
    using b(1,2) by (simp add: spec_clamp_def)
  have ck: "spec_clamp 0 1 (1 / 2 + of_int k / 10) = 1 / 2 + of_int k / 10"
    using b(3,4) by (simp add: spec_clamp_def)
  have "unit_roundoff < 1 / 100" by (simp add: unit_roundoff_def)
  with ej ek b(5) show ?thesis unfolding cj ck by linarith
qed

lemma sentiment_expr_minus_5: "max 0 (min 1 (fadd (fdiv (float_of_int (- 5)) 10) (1 / 2))) = 0"
  by code_simp

lemma sentiment_expr_floor:
  "(max 0 (min 1 (fadd (fdiv (float_of_int k) 10) (1 / 2))) = 0) = (k \<le> - 5)"
proof (cases "k \<le> - 5")
  case True
  from sentiment_expr_mono [OF True] sentiment_expr_minus_5
  have "max 0 (min 1 (fadd (fdiv (float_of_int k) 10) (1 / 2))) \<le> 0" by simp
  moreover have "0 \<le> max 0 (min 1 (fadd (fdiv (float_of_int k) 10) (1 / 2)))" by simp
  ultimately show ?thesis using True by simp
next
  case False
  then have k: "- 5 < k" by simp
  show ?thesis
  proof (cases "k \<le> 5")
    case True
    from sentiment_expr_strict [OF k _ True] sentiment_expr_minus_5
    have "0 < max 0 (min 1 (fadd (fdiv (float_of_int k) 10) (1 / 2)))" by simp
    with False show ?thesis by simp
  next
    case False
    then have "5 \<le> k" by simp
    then have "max 0 (min 1 (fadd (fdiv (float_of_int k) 10) (1 / 2))) = 1"
      by (simp add: sentiment_expr_saturated)
    with k show ?thesis by simp
  qed
qed

lemma sentiment_score_strict:
  assumes "positive_count a < positive_count b" "negative_count a = negative_count b"
    and "- 5 \<le> int (positive_count a) - int (negative_count a)"
    and "int (positive_count b) - int (negative_count b) \<le> 5"
  shows "sentiment_score a < sentiment_score b"
  unfolding sentiment_score_def Let_def using assms by (intro sentiment_expr_strict) simp_all

lemma pe_sentiment_strict:
  assumes "pe_positive a < pe_positive b" "pe_negative a = pe_negative b"
    and "- 5 \<le> int (pe_positive a) - int (pe_negative a)"
    and "int (pe_positive b) - int (pe_negative b) \<le> 5"
  shows "pe_sentiment a < pe_sentiment b"
  unfolding pe_sentiment_def using assms by (intro sentiment_expr_strict) simp_all

lemma sentiment_score_floor:
  "(sentiment_score a = 0) = (int (positive_count a) - int (negative_count a) \<le> - 5)"
  unfolding sentiment_score_def Let_def by (rule sentiment_expr_floor)

lemma pe_sentiment_floor:
  "(pe_sentiment a = 0) = (int (pe_positive a) - int (pe_negative a) \<le> - 5)"
  unfolding pe_sentiment_def by (rule sentiment_expr_floor)

lemma good_great_counts:
  "positive_count ''good'' = 1" "positive_count ''good great'' = 2"
  "negative_count ''good'' = 0" "negative_count ''good great'' = 0"
  "pe_positive ''good'' = 1" "pe_positive ''good great'' = 2"
  "pe_negative ''good'' = 0" "pe_negative ''good great'' = 0"
  by code_simp+

lemma thanks_great_counts:
  "positive_count ''Thanks! Great, great, great.'' = 2"
  "negative_count ''Thanks! Great, great, great.'' = 0"
  "pe_positive ''Thanks! Great, great, great.'' = 2"
  "pe_negative ''Thanks! Great, great, great.'' = 0"
  by code_simp+

lemma thanks_great_sentiment:
  "sentiment_score ''Thanks! Great, great, great.'' = fl (7 / 10)"
  "pe_sentiment ''Thanks! Great, great, great.'' = fl (7 / 10)"
  by code_simp+

lemma fl_seven_tenths: "fl (7 / 10) < 1" by code_simp

lemma positive_count_split:
  "positive_count m = pe_positive m + (if py_in ''please'' (lower m) then 1 else 0)"
  by (simp add: positive_count_def pe_positive_def positive_words_def pe_positive_words_def)

lemma negative_count_split:
  "negative_count m = pe_negative m + (if py_in ''sorry'' (lower m) then 1 else 0)"
  by (simp add: negative_count_def pe_negative_def negative_words_def pe_negative_words_def)

lemma scorers_agree:
  assumes "py_in ''please'' (lower text) = py_in ''sorry'' (lower text)"
  shows "calculate_harmony_score text = calculate_harmony text"
proof -
  have "int (positive_count text) - int (negative_count text)
        = int (pe_positive text) - int (pe_negative text)"
    using assms by (simp add: positive_count_split negative_count_split)
  then have "sentiment_score text = pe_sentiment text"
    by (simp add: sentiment_score_def pe_sentiment_def)
  then show ?thesis
    by (simp add: calculate_harmony_score_def calculate_harmony_def Let_def length_score_def
        word_score_def word_count_def punctuation_score_def punctuation_count_def)
qed

lemma please_differs: "calculate_harmony_score ''please'' \<noteq> calculate_harmony ''please''"
  by code_simp

lemma count_card:
  "distinct lexicon \<Longrightarrow>
   length (filter (\<lambda>w. py_in w (lower m)) lexicon) = card {w \<in> set lexicon. sublist w (lower m)}"
  by (simp add: distinct_length_filter py_in_sublist Int_def conj_commute)

lemma lexicons_distinct:
  "distinct positive_words" "distinct negative_words"
  "distinct pe_positive_words" "distinct pe_negative_words"
  by (simp_all add: positive_words_def negative_words_def pe_positive_words_def
      pe_negative_words_def)

lemma hit_examples:
  "negative_count ''I know'' = 1" "pe_negative ''I know'' = 1"
  "positive_count ''great'' = 1" "positive_count ''great great great'' = 1"
  "pe_positive ''great'' = 1" "pe_positive ''great great great'' = 1"
  "positive_count ''GREAT'' = 1" "pe_positive ''GREAT'' = 1"
  by code_simp+


section \<open>Properties of the queries\<close>

lemma http_try_cases:
  "http_try w sent req extract sp ep =
     Inr (case post w sent req of
            Inl e \<Rightarrow> JStr (ep @ str_exc w e)
          | Inr r \<Rightarrow>
              if status_code r = 200
              then (case and_then (json_body r) extract of
                      Inl e \<Rightarrow> JStr (ep @ str_exc w e) | Inr v \<Rightarrow> v)
              else JStr (sp @ str_int (status_code r)))"
  by (simp add: http_try_def try_except_def and_then_def split: sum.splits)

lemma http_try_returns: "\<exists>v. http_try w sent req extract sp ep = Inr v"
  by (subst http_try_cases) blast




lemma http_try_success:
  "post w sent req = Inr r \<Longrightarrow> status_code r = 200 \<Longrightarrow>
   and_then (json_body r) extract = Inr v \<Longrightarrow>
   http_try w sent req extract sp ep = Inr v"
  by (simp add: http_try_cases)

lemma query_openai_returns: "\<exists>v. fst (query_openai w prompt model sent) = Inr v"
  using http_try_returns by (simp add: query_openai_def split: option.splits)

lemma query_anthropic_returns: "\<exists>v. fst (query_anthropic w prompt model sent) = Inr v"
  using http_try_returns by (simp add: query_anthropic_def split: option.splits)

lemma query_ollama_returns: "\<exists>v. fst (query_ollama w prompt model sent) = Inr v"
  using http_try_returns by (simp add: query_ollama_def)

lemma query_deepseek_returns: "\<exists>v. fst (query_deepseek w prompt sent) = Inr v"
  using http_try_returns by (simp add: query_deepseek_def split: option.splits)

lemma query_openai_missing:
  "getenv w ''OPENAI_API_KEY'' = None \<or> getenv w ''OPENAI_API_KEY'' = Some [] \<Longrightarrow>
   query_openai w prompt model sent = (Inr (JStr ''[MAN] OpenAI API key not configured''), sent)"
  by (auto simp: query_openai_def)






section \<open>Properties of the orchestration\<close>

lemma store_response_Inr:
  "fst outcome = Inr r \<Longrightarrow>
   store_response face outcome self
     = (Inr (self\<lparr>responses := AList.update face r (responses self)\<rparr>), snd outcome)"
  by (cases outcome) (simp add: store_response_def)

lemma store_query_openai:
  "\<exists>r. store_response f (query_openai w p m sent) self
        = (Inr (self\<lparr>responses := AList.update f r (responses self)\<rparr>),
           snd (query_openai w p m sent))
       \<and> fst (query_openai w p m sent) = Inr r"
  using query_openai_returns [of w p m sent] by (auto simp: store_response_Inr)

lemma store_query_anthropic:
  "\<exists>r. store_response f (query_anthropic w p m sent) self
        = (Inr (self\<lparr>responses := AList.update f r (responses self)\<rparr>),
           snd (query_anthropic w p m sent))
       \<and> fst (query_anthropic w p m sent) = Inr r"
  using query_anthropic_returns [of w p m sent] by (auto simp: store_response_Inr)

lemma store_query_ollama:
  "\<exists>r. store_response f (query_ollama w p m sent) self
        = (Inr (self\<lparr>responses := AList.update f r (responses self)\<rparr>),
           snd (query_ollama w p m sent))
       \<and> fst (query_ollama w p m sent) = Inr r"
  using query_ollama_returns [of w p m sent] by (auto simp: store_response_Inr)

lemma store_query_deepseek:
  "\<exists>r. store_response f (query_deepseek w p sent) self
        = (Inr (self\<lparr>responses := AList.update f r (responses self)\<rparr>),
           snd (query_deepseek w p sent))
       \<and> fst (query_deepseek w p sent) = Inr r"
  using query_deepseek_returns [of w p sent] by (auto simp: store_response_Inr)

lemma query_face_known: "(query_face w p f sent = None) = (f \<notin> known_faces)"
  by (simp add: query_face_def known_faces_def)

lemma query_face_returns: "query_face w p f sent = Some out \<Longrightarrow> \<exists>r. fst out = Inr r"
  using query_openai_returns [of w p "''gpt-4''" sent]
    query_anthropic_returns [of w p "''claude-3-sonnet''" sent]
    query_ollama_returns [of w p "''mistral''" sent] query_deepseek_returns [of w p sent]
  by (auto simp: query_face_def split: if_splits)

lemma orchestrate_loop_Cons:
  "orchestrate_loop w p (f # fs) self sent =
     (case query_face w p f sent of
        None \<Rightarrow> orchestrate_loop w p fs self sent
      | Some out \<Rightarrow>
          (case fst out of
             Inl e \<Rightarrow> (Inl e, snd out)
           | Inr r \<Rightarrow>
               orchestrate_loop w p fs
                 (self\<lparr>responses := AList.update f r (responses self)\<rparr>) (snd out)))"
  by (auto simp: query_face_def store_response_def split: prod.splits sum.splits)

declare orchestrate_loop.simps(2) [simp del]

lemma orchestrate_loop_returns:
  "\<exists>self' sent'. orchestrate_loop w p fs self sent = (Inr self', sent')
     \<and> fst ` set (responses self') = fst ` set (responses self) \<union> (set fs \<inter> known_faces)
     \<and> joinity_harmony_score self' = joinity_harmony_score self"
proof (induction fs arbitrary: self sent)
  case Nil
  then show ?case by simp
next
  case (Cons f fs)
  show ?case
  proof (cases "query_face w p f sent")
    case None
    then have "f \<notin> known_faces" by (simp add: query_face_known)
    with None Cons.IH [of self sent] show ?thesis
      by (auto simp: orchestrate_loop_Cons)
  next
    case (Some out)
    then have kf: "f \<in> known_faces" using query_face_known [of w p f sent] by auto
    from query_face_returns [OF Some] obtain r where r: "fst out = Inr r" by blast
    define self1 where "self1 = self\<lparr>responses := AList.update f r (responses self)\<rparr>"
    have step: "orchestrate_loop w p (f # fs) self sent = orchestrate_loop w p fs self1 (snd out)"
      by (simp add: orchestrate_loop_Cons Some r self1_def)
    from Cons.IH [of self1 "snd out"] obtain self' sent' where
      ih: "orchestrate_loop w p fs self1 (snd out) = (Inr self', sent')"
      "fst ` set (responses self') = fst ` set (responses self1) \<union> (set fs \<inter> known_faces)"
      "joinity_harmony_score self' = joinity_harmony_score self1"
      by blast
    have "fst ` set (responses self1) = {f} \<union> fst ` set (responses self)"
      by (simp add: self1_def AList.dom_update)
    with ih step kf show ?thesis by (auto simp: self1_def)
  qed
qed

text \<open>An entry that every later query for the face would store again is the final one.\<close>

lemma orchestrate_loop_entry:
  assumes "\<And>sent. \<exists>out. query_face w p f sent = Some out \<and> fst out = Inr v"
    and "orchestrate_loop w p fs self sent = (Inr self', sent')"
  shows "map_of (responses self') f = (if f \<in> set fs then Some v else map_of (responses self) f)"
  using assms(2)
proof (induction fs arbitrary: self sent)
  case Nil
  then show ?case by simp
next
  case (Cons g fs)
  show ?case
  proof (cases "query_face w p g sent")
    case None
    then have "g \<noteq> f" using assms(1) [of sent] by auto
    with None Cons show ?thesis by (auto simp: orchestrate_loop_Cons)
  next
    case (Some out)
    from query_face_returns [OF Some] obtain r where r: "fst out = Inr r" by blast
    define self1 where "self1 = self\<lparr>responses := AList.update g r (responses self)\<rparr>"
    have "orchestrate_loop w p fs self1 (snd out) = (Inr self', sent')"
      using Cons.prems by (simp add: orchestrate_loop_Cons Some r self1_def)
    from Cons.IH [OF this]
    have ih: "map_of (responses self') f
              = (if f \<in> set fs then Some v else map_of (responses self1) f)" .
    have "g = f \<Longrightarrow> r = v" using assms(1) [of sent] Some r by auto
    then have "map_of (responses self1) f = (if g = f then Some v else map_of (responses self) f)"
      by (auto simp: self1_def AList.update_conv')
    with ih show ?thesis by auto
  qed
qed

lemma orchestrate_returns:
  "\<exists>res self' sent'.
     orchestrate w p faces self sent = (Inr (res, self'), sent')
     \<and> o_prompt res = p \<and> o_status res = ''complete'' \<and> o_timestamp res = utcnow w
     \<and> o_responses res = responses self'
     \<and> o_harmony_score res = orchestrator_calculate_harmony w self'
     \<and> joinity_harmony_score self' = o_harmony_score res
     \<and> fst ` set (o_responses res)
         = (case faces of None \<Rightarrow> known_faces | Some fs \<Rightarrow> set fs \<inter> known_faces)
     \<and> orchestrate_loop w p (case faces of None \<Rightarrow> [''MAN'', ''LION'', ''OX'', ''EAGLE'']
                                | Some fs \<Rightarrow> fs) (self\<lparr>responses := []\<rparr>) sent
         = (Inr (self'\<lparr>joinity_harmony_score := joinity_harmony_score self\<rparr>), sent')"
proof -
  define fs where
    "fs = (case faces of None \<Rightarrow> [''MAN'', ''LION'', ''OX'', ''EAGLE''] | Some fs \<Rightarrow> fs)"
  from orchestrate_loop_returns [of w p fs "self\<lparr>responses := []\<rparr>" sent]
  obtain self1 sent1 where
    l: "orchestrate_loop w p fs (self\<lparr>responses := []\<rparr>) sent = (Inr self1, sent1)"
    and k: "fst ` set (responses self1) = set fs \<inter> known_faces"
    and h: "joinity_harmony_score self1 = joinity_harmony_score self"
    by auto
  have keys: "set fs \<inter> known_faces
              = (case faces of None \<Rightarrow> known_faces | Some fs \<Rightarrow> set fs \<inter> known_faces)"
    by (auto simp: fs_def known_faces_def split: option.splits)
  have calc: "orchestrator_calculate_harmony w
                (self1\<lparr>joinity_harmony_score := orchestrator_calculate_harmony w self1\<rparr>)
              = orchestrator_calculate_harmony w self1"
    by (simp add: orchestrator_calculate_harmony_def)
  have undo: "self1\<lparr>joinity_harmony_score := orchestrator_calculate_harmony w self1,
                 joinity_harmony_score := joinity_harmony_score self\<rparr> = self1"
    using h by simp
  show ?thesis
    using l k keys calc undo
    by (simp add: orchestrate_def Let_def fs_def [symmetric])
qed


section \<open>Properties of the aggregate score\<close>

lemma int_truediv_nonneg: "0 \<le> a \<Longrightarrow> 0 \<le> b \<Longrightarrow> 0 \<le> int_truediv a b"
  unfolding int_truediv_def by (intro fl_nonneg) simp

lemma orchestrator_harmony_range:
  "0 \<le> orchestrator_calculate_harmony w self" "orchestrator_calculate_harmony w self \<le> 1"
proof -
  define t where "t = int (sum_list (map (\<lambda>r. length (py_str w r)) (map snd (responses self))))"
  define n where "n = int (length (responses self))"
  have "0 \<le> int_truediv t n" by (rule int_truediv_nonneg) (simp_all add: t_def n_def)
  then have "0 \<le> fdiv (int_truediv t n) 1000" unfolding fdiv_def by (intro fl_nonneg) simp
  then have h: "0 \<le> min 1 (fdiv (int_truediv t n) 1000)" "min 1 (fdiv (int_truediv t n) 1000) \<le> 1"
    by simp_all
  show "0 \<le> orchestrator_calculate_harmony w self"
    using round3_range(1) [OF h]
    by (simp add: orchestrator_calculate_harmony_def Let_def t_def n_def)
  show "orchestrator_calculate_harmony w self \<le> 1"
    using round3_range(2) [OF h]
    by (simp add: orchestrator_calculate_harmony_def Let_def t_def n_def)
qed

lemma aggregate_nearest:
  fixes t n :: nat
  assumes n: "0 < n" "n < 2 ^ 40"
  defines "h \<equiv> min 1 (fdiv (int_truediv (int t) (int n)) 1000)"
    and "A \<equiv> min 1 ((of_nat t :: rat) / of_nat n / 1000)"
  shows "0 \<le> round_half_even (h * 1000)" "round_half_even (h * 1000) \<le> 1000"
    and "\<bar>of_int (round_half_even (h * 1000)) - A * 1000\<bar> \<le> 1 / 2"
    and "frac (A * 1000) \<noteq> 1 / 2 \<Longrightarrow>
         round3 h = fl (of_int (round_half_even (A * 1000)) / 1000)"
proof -
  define x where "x = (of_nat t :: rat) / of_nat n"
  have npos: "(0::rat) < of_nat n" using n(1) by simp
  have x0: "0 \<le> x" by (simp add: x_def)
  have tv: "int_truediv (int t) (int n) = fl x" by (simp add: int_truediv_def x_def)
  have goal: "0 \<le> round_half_even (h * 1000) \<and> round_half_even (h * 1000) \<le> 1000
    \<and> \<bar>of_int (round_half_even (h * 1000)) - A * 1000\<bar> \<le> 1 / 2
    \<and> (frac (A * 1000) \<noteq> 1 / 2 \<longrightarrow>
         round3 h = fl (of_int (round_half_even (A * 1000)) / 1000))"
  proof (cases "1000 \<le> x")
    case True
    then have "fl 1000 \<le> fl x" by (rule fl_mono)
    then have "1 \<le> fl x / 1000" by (simp add: fl_200)
    then have "fl 1 \<le> fl (fl x / 1000)" by (rule fl_mono)
    then have h1: "h = 1" by (simp add: h_def tv fdiv_def fl_one)
    have A1: "A = 1" using True by (simp add: A_def x_def [symmetric])
    have r: "round_half_even (1000 :: rat) = 1000"
      using round_half_even_of_int [of 1000] by simp
    show ?thesis by (simp add: h1 A1 r round3_def)
  next
    case False
    then have x1: "x < 1000" by simp
    have e1: "\<bar>fl x - x\<bar> \<le> 512 * unit_roundoff" using x0 x1 by (intro fl_error_1024) simp
    have "fl x \<le> 1000" using x1 by (intro fl_le_fixed fl_200) simp
    moreover have "0 \<le> fl x" using x0 by (rule fl_nonneg)
    ultimately have "\<bar>fl x / 1000\<bar> < 2" by simp
    then have e2: "\<bar>fl (fl x / 1000) - fl x / 1000\<bar> \<le> unit_roundoff" by (rule fl_error_2)
    have "\<bar>fl x / 1000 - x / 1000\<bar> = \<bar>fl x - x\<bar> / 1000" by (simp flip: diff_divide_distrib)
    also have "\<dots> \<le> 512 * unit_roundoff / 1000" using e1 by simp
    also have "\<dots> \<le> unit_roundoff" using unit_roundoff_pos by simp
    finally have e3: "\<bar>fl x / 1000 - x / 1000\<bar> \<le> unit_roundoff" .
    from e2 e3 have e4: "\<bar>fl (fl x / 1000) - x / 1000\<bar> \<le> 2 * unit_roundoff" by linarith
    have Ax: "A = x / 1000" using x1 by (simp add: A_def x_def [symmetric])
    have hx: "h = min 1 (fl (fl x / 1000))" by (simp add: h_def tv fdiv_def)
    have "x / 1000 \<le> 1" using x1 by simp
    with e4 have err: "\<bar>h - A\<bar> \<le> 2 * unit_roundoff" unfolding hx Ax min_def by (simp; linarith)
    have grid: "A * 1000 * of_int (int n) = of_int (int t)" using npos by (simp add: Ax x_def)
    have "h * 1000 - A * 1000 = (h - A) * 1000" by (simp only: left_diff_distrib)
    then have "\<bar>h * 1000 - A * 1000\<bar> = \<bar>h - A\<bar> * \<bar>1000\<bar>" by (simp only: abs_mult)
    then have "\<bar>h * 1000 - A * 1000\<bar> \<le> 2000 * unit_roundoff" using err by simp
    moreover have "(of_int (2 * int n) :: rat) \<le> 2 ^ 41"
    proof -
      have "2 * int n \<le> 2 ^ 41" using n(2) by simp
      then have "(of_int (2 * int n) :: rat) \<le> of_int (2 ^ 41)" by (simp only: of_int_le_iff)
      then show ?thesis by simp
    qed
    moreover have "(0::rat) \<le> of_int (2 * int n)" by simp
    ultimately have "\<bar>h * 1000 - A * 1000\<bar> * of_int (2 * int n)
                     \<le> 2000 * unit_roundoff * 2 ^ 41"
      by (intro mult_mono) simp_all
    also have "\<dots> < 1" by (simp add: unit_roundoff_def)
    finally have near: "\<bar>h * 1000 - A * 1000\<bar> * of_int (2 * int n) < 1" .
    have q: "0 < int n" using n(1) by simp
    note r = round_on_grid [OF q grid near]
    have A01: "0 \<le> A" "A \<le> 1" using x0 by (simp_all add: A_def x_def [symmetric])
    have "- 1 < (of_int (round_half_even (h * 1000)) :: rat)" using r(1) A01 by linarith
    then have "(of_int (- 1) :: rat) < of_int (round_half_even (h * 1000))" by simp
    then have "- 1 < round_half_even (h * 1000)" by (simp only: of_int_less_iff)
    then have lo: "0 \<le> round_half_even (h * 1000)" by simp
    have "(of_int (round_half_even (h * 1000)) :: rat) < 1001" using r(1) A01 by linarith
    then have "(of_int (round_half_even (h * 1000)) :: rat) < of_int 1001" by simp
    then have "round_half_even (h * 1000) < 1001" by (simp only: of_int_less_iff)
    then have hi: "round_half_even (h * 1000) \<le> 1000" by simp
    from lo hi r show ?thesis by (simp add: round3_def)
  qed
  from goal show "0 \<le> round_half_even (h * 1000)" "round_half_even (h * 1000) \<le> 1000"
    "\<bar>of_int (round_half_even (h * 1000)) - A * 1000\<bar> \<le> 1 / 2" by blast+
  assume "frac (A * 1000) \<noteq> 1 / 2"
  with goal show "round3 h = fl (of_int (round_half_even (A * 1000)) / 1000)" by blast
qed

lemma orchestrator_harmony_nearest:
  fixes w :: world and self :: joinity
  assumes "responses self \<noteq> []" "length (responses self) < 2 ^ 40"
  defines "texts \<equiv> map (\<lambda>kv. py_str w (snd kv)) (responses self)"
  shows "\<exists>k. 0 \<le> k \<and> k \<le> 1000
             \<and> orchestrator_calculate_harmony w self = fl (of_int k / 1000)
             \<and> \<bar>of_int k - spec_aggregate_average texts * 1000\<bar> \<le> 1 / 2"
    and "frac (spec_aggregate_average texts * 1000) \<noteq> 1 / 2 \<Longrightarrow>
         orchestrator_calculate_harmony w self = fl (spec_aggregate texts)"
proof -
  define t where "t = sum_list (map (\<lambda>r. length (py_str w r)) (map snd (responses self)))"
  define n where "n = length (responses self)"
  have n: "0 < n" "n < 2 ^ 40" using assms(1,2) by (simp_all add: n_def)
  have code: "orchestrator_calculate_harmony w self
              = round3 (min 1 (fdiv (int_truediv (int t) (int n)) 1000))"
    using assms(1) by (simp add: orchestrator_calculate_harmony_def Let_def t_def n_def)
  have spec: "spec_aggregate_average texts = min 1 (of_nat t / of_nat n / 1000)"
    by (simp add: spec_aggregate_average_def texts_def t_def n_def comp_def)
  note r = aggregate_nearest [OF n, of t]
  have "round3 (min 1 (fdiv (int_truediv (int t) (int n)) 1000))
        = fl (of_int (round_half_even (min 1 (fdiv (int_truediv (int t) (int n)) 1000) * 1000))
              / 1000)"
    by (simp only: round3_def)
  with r(1,2,3)
  show "\<exists>k. 0 \<le> k \<and> k \<le> 1000
             \<and> orchestrator_calculate_harmony w self = fl (of_int k / 1000)
             \<and> \<bar>of_int k - spec_aggregate_average texts * 1000\<bar> \<le> 1 / 2"
    unfolding code spec by blast
  assume "frac (spec_aggregate_average texts * 1000) \<noteq> 1 / 2"
  then show "orchestrator_calculate_harmony w self = fl (spec_aggregate texts)"
    unfolding code spec_aggregate_def spec by (rule r(4))
qed

lemma aggregate_five_six:
  "orchestrator_calculate_harmony local_only_world
     \<lparr>responses = [(''MAN'', JStr ''Hello''), (''OX'', JStr ''Hello!'')],
      joinity_harmony_score = 0\<rparr> = fl (5 / 1000)"
  "spec_aggregate_average [''Hello'', ''Hello!''] = 11 / 2000"
  "spec_aggregate [''Hello'', ''Hello!''] = 6 / 1000"
  "fl (5 / 1000) < fl (6 / 1000)"
  by code_simp+

lemma aggregate_two_three:
  "orchestrator_calculate_harmony local_only_world
     \<lparr>responses = [(''MAN'', JStr ''ab''), (''OX'', JStr ''abc'')],
      joinity_harmony_score = 0\<rparr> = fl (3 / 1000)"
  "spec_aggregate_average [''ab'', ''abc''] = 5 / 2000"
  "spec_aggregate [''ab'', ''abc''] = 2 / 1000"
  "fl (2 / 1000) < fl (3 / 1000)"
  by code_simp+

lemma aggregate_target_example:
  "spec_aggregate [replicate 200 CHR ''a''] = 2 / 10"
  "orchestrator_calculate_harmony local_only_world
     \<lparr>responses = [(''OX'', JStr (replicate 200 CHR ''a''))], joinity_harmony_score = 0\<rparr>
   = fl (2 / 10)"
  by code_simp+

lemma aggregate_target_length_score: "length_score (replicate 200 CHR ''a'') = 1"
  by code_simp

lemma aggregate_witness_values:
  "frac (spec_aggregate_average [''[MAN] OpenAI API key not configured'', ''Hello''] * 1000)
   \<noteq> 1 / 2"
  "spec_aggregate [''[MAN] OpenAI API key not configured'', ''Hello''] = 20 / 1000"
  by code_simp+

lemma orchestrator_harmony_empty:
  "responses self = [] \<Longrightarrow> orchestrator_calculate_harmony w self = 0"
  by (simp add: orchestrator_calculate_harmony_def)


section \<open>Properties of the ingester\<close>

lemma expect_Some: "(expect c s = Some r) = (s = c # r)"
  by (cases s) (auto simp: expect_def)

lemma digits_Some:
  "(digits n s = Some (a, r)) = (s = a @ r \<and> length a = n \<and> list_all isdigit a)"
  by (auto simp: digits_def min_def)

lemma isdigit_not_space: "isdigit c \<Longrightarrow> \<not> isspace c"
  by (auto simp: isdigit_def isspace_def Let_def)

lemma colon_not_space: "\<not> isspace CHR '':''"
  by (simp add: isspace_def)

lemma dropWhile_spaces:
  "list_all isspace ws \<Longrightarrow> ys = [] \<or> \<not> isspace (hd ys) \<Longrightarrow> dropWhile isspace (ws @ ys) = ys"
proof (induction ws)
  case Nil
  then show ?case by (cases ys) auto
next
  case (Cons w ws)
  then show ?case by simp
qed

lemma contact_group_Some:
  assumes "contact_group s = Some (c, r)"
  shows "\<exists>ws rest. s = ws @ c @ CHR '':'' # rest \<and> r = CHR '':'' # rest
           \<and> list_all isspace ws \<and> c \<noteq> [] \<and> CHR '':'' \<notin> set c"
proof -
  define run where "run = takeWhile (\<lambda>c. c \<noteq> CHR '':'') s"
  define tl_s where "tl_s = dropWhile (\<lambda>c. c \<noteq> CHR '':'') s"
  have s: "s = run @ tl_s" by (simp add: run_def tl_s_def)
  have nocolon: "CHR '':'' \<notin> set run"
    unfolding run_def using set_takeWhileD by fastforce
  from assms have ne: "tl_s \<noteq> []" and r: "r = tl_s"
    by (auto simp: contact_group_def Let_def tl_s_def split: if_splits)
  have "hd tl_s = CHR '':''"
    using ne hd_dropWhile [of "\<lambda>c. c \<noteq> CHR '':''" s] by (simp add: tl_s_def)
  with ne obtain rest where rest: "tl_s = CHR '':'' # rest" by (cases tl_s) auto
  have "\<exists>ws. run = ws @ c \<and> list_all isspace ws \<and> c \<noteq> []"
  proof (cases "dropWhile isspace run = []")
    case False
    with assms have c: "c = dropWhile isspace run"
      by (auto simp: contact_group_def Let_def run_def split: if_splits)
    define lead where "lead = takeWhile isspace run"
    have "run = lead @ c" by (simp add: c lead_def)
    moreover have "list_all isspace lead"
      unfolding lead_def list_all_iff using set_takeWhileD by fastforce
    moreover have "c \<noteq> []" using False by (simp only: c) simp
    ultimately show ?thesis by (intro exI [of _ lead] conjI)
  next
    case True
    with assms have c: "c = [last run]" and rne: "run \<noteq> []"
      by (auto simp: contact_group_def Let_def run_def split: if_splits)
    have allsp: "list_all isspace run"
      using True by (simp add: dropWhile_eq_Nil_conv list_all_iff)
    define front where "front = butlast run"
    have "run = front @ c" using rne by (simp add: c front_def)
    moreover have "list_all isspace front"
      using allsp by (auto simp: front_def list_all_iff dest: in_set_butlastD)
    moreover have "c \<noteq> []" by (simp add: c)
    ultimately show ?thesis by (intro exI [of _ front] conjI)
  qed
  then obtain ws where ws: "run = ws @ c" "list_all isspace ws" "c \<noteq> []" by blast
  have "CHR '':'' \<notin> set c" using nocolon ws(1) by simp
  moreover have "s = ws @ c @ CHR '':'' # rest" using s ws(1) rest by simp
  moreover have "r = CHR '':'' # rest" using r rest by simp
  ultimately show ?thesis using ws(2,3) by (intro exI [of _ ws] exI [of _ rest] conjI)
qed

lemma contact_group_matches:
  assumes "list_all isspace ws" "sender \<noteq> []" "CHR '':'' \<notin> set sender"
  shows "\<exists>g. contact_group (ws @ sender @ CHR '':'' # rest) = Some (g, CHR '':'' # rest)"
proof -
  have nc: "x \<noteq> CHR '':''" if "x \<in> set (ws @ sender)" for x
    using that assms(1,3) colon_not_space by (auto simp: list_all_iff)
  have t: "takeWhile (\<lambda>c. c \<noteq> CHR '':'') ((ws @ sender) @ CHR '':'' # rest) = ws @ sender"
    using nc by (subst takeWhile_append2) simp_all
  have d: "dropWhile (\<lambda>c. c \<noteq> CHR '':'') ((ws @ sender) @ CHR '':'' # rest) = CHR '':'' # rest"
    using nc by (subst dropWhile_append2) simp_all
  have "contact_group ((ws @ sender) @ CHR '':'' # rest)
        = (if dropWhile isspace (ws @ sender) \<noteq> []
           then Some (dropWhile isspace (ws @ sender), CHR '':'' # rest)
           else Some ([last (ws @ sender)], CHR '':'' # rest))"
    unfolding contact_group_def Let_def t d using assms(2) by simp
  then show ?thesis by (cases "dropWhile isspace (ws @ sender) = []") simp_all
qed

lemma digits_prefix:
  "length a = n \<Longrightarrow> list_all isdigit a \<Longrightarrow> digits n (a @ r) = Some (a, r)"
  by (simp add: digits_def)

lemma match_line_sound:
  assumes "match_line line = Some g"
  shows "matches_pattern line"
proof -
  from assms have
    "\<exists>r1 p1 r3 p2 r5 p3 r7 p4 r9 p5 r11 p6 r13.
       expect CHR ''['' line = Some r1 \<and> digits 2 r1 = Some p1
       \<and> expect CHR '':'' (snd p1) = Some r3 \<and> digits 2 r3 = Some p2
       \<and> expect CHR '','' (snd p2) = Some r5 \<and> digits 2 (dropWhile isspace r5) = Some p3
       \<and> expect CHR ''/'' (snd p3) = Some r7 \<and> digits 2 r7 = Some p4
       \<and> expect CHR ''/'' (snd p4) = Some r9 \<and> digits 4 r9 = Some p5
       \<and> expect CHR '']'' (snd p5) = Some r11 \<and> contact_group r11 = Some p6
       \<and> expect CHR '':'' (snd p6) = Some r13"
    unfolding match_line_def bind_eq_Some_conv case_prod_beta by blast
  then obtain r1 p1 r3 p2 r5 p3 r7 p4 r9 p5 r11 p6 r13 where
    e1: "expect CHR ''['' line = Some r1" and d1: "digits 2 r1 = Some (fst p1, snd p1)"
    and e2: "expect CHR '':'' (snd p1) = Some r3" and d2: "digits 2 r3 = Some (fst p2, snd p2)"
    and e3: "expect CHR '','' (snd p2) = Some r5"
    and d3: "digits 2 (dropWhile isspace r5) = Some (fst p3, snd p3)"
    and e4: "expect CHR ''/'' (snd p3) = Some r7" and d4: "digits 2 r7 = Some (fst p4, snd p4)"
    and e5: "expect CHR ''/'' (snd p4) = Some r9" and d5: "digits 4 r9 = Some (fst p5, snd p5)"
    and e6: "expect CHR '']'' (snd p5) = Some r11"
    and cg: "contact_group r11 = Some (fst p6, snd p6)"
    and e7: "expect CHR '':'' (snd p6) = Some r13"
    by auto
  define hh where "hh = fst p1"
  define mi where "mi = fst p2"
  define dd where "dd = fst p3"
  define mo where "mo = fst p4"
  define yyyy where "yyyy = fst p5"
  define c where "c = fst p6"
  define r2 where "r2 = snd p1"
  define r4 where "r4 = snd p2"
  define r6 where "r6 = snd p3"
  define r8 where "r8 = snd p4"
  define r10 where "r10 = snd p5"
  define r12 where "r12 = snd p6"
  note d1 = d1 [folded hh_def r2_def] and d2 = d2 [folded mi_def r4_def]
    and d3 = d3 [folded dd_def r6_def] and d4 = d4 [folded mo_def r8_def]
    and d5 = d5 [folded yyyy_def r10_def] and cg = cg [folded c_def r12_def]
    and e2 = e2 [folded r2_def] and e3 = e3 [folded r4_def] and e4 = e4 [folded r6_def]
    and e5 = e5 [folded r8_def] and e6 = e6 [folded r10_def] and e7 = e7 [folded r12_def]
  define ws1 where "ws1 = takeWhile isspace r5"
  have dw: "dropWhile isspace r5 = dd @ r6" using d3 by (simp add: digits_Some)
  have "takeWhile isspace r5 @ dropWhile isspace r5 = r5" by (rule takeWhile_dropWhile_id)
  then have r5: "r5 = ws1 @ dd @ r6" unfolding dw ws1_def by simp
  have sp1: "list_all isspace ws1"
    unfolding ws1_def list_all_iff using set_takeWhileD by fastforce
  from contact_group_Some [OF cg] obtain ws2 rest where
    r11: "r11 = ws2 @ c @ CHR '':'' # rest" and sp2: "list_all isspace ws2"
    and c: "c \<noteq> []" "CHR '':'' \<notin> set c"
    by blast
  have "line = ''['' @ hh @ '':'' @ mi @ '','' @ ws1 @ dd @ ''/'' @ mo @ ''/'' @ yyyy @ '']''
               @ ws2 @ c @ '':'' @ rest"
    using e1 d1 e2 d2 e3 r5 e4 d4 e5 d5 e6 r11 by (simp add: expect_Some digits_Some)
  moreover have "length hh = 2 \<and> length mi = 2 \<and> length dd = 2 \<and> length mo = 2
                 \<and> length yyyy = 4"
    using d1 d2 d3 d4 d5 by (simp add: digits_Some)
  moreover have "list_all isdigit (hh @ mi @ dd @ mo @ yyyy)"
    using d1 d2 d3 d4 d5 by (simp add: digits_Some)
  moreover have "list_all isspace (ws1 @ ws2)" using sp1 sp2 by simp
  ultimately show ?thesis
    unfolding matches_pattern_def using c by blast
qed

lemma match_line_complete:
  assumes "matches_pattern line"
  shows "\<exists>g. match_line line = Some g"
proof -
  from assms obtain hh mi ws1 dd mo yyyy ws2 sender rest where
    line: "line = ''['' @ hh @ '':'' @ mi @ '','' @ ws1 @ dd @ ''/'' @ mo @ ''/'' @ yyyy @ '']''
               @ ws2 @ sender @ '':'' @ rest"
    and len: "length hh = 2" "length mi = 2" "length dd = 2" "length mo = 2" "length yyyy = 4"
    and dig: "list_all isdigit hh" "list_all isdigit mi" "list_all isdigit dd"
      "list_all isdigit mo" "list_all isdigit yyyy"
    and sp: "list_all isspace ws1" "list_all isspace ws2"
    and sender: "sender \<noteq> []" "CHR '':'' \<notin> set sender"
    unfolding matches_pattern_def by auto
  define r6 where "r6 = ''/'' @ mo @ ''/'' @ yyyy @ '']'' @ ws2 @ sender @ '':'' @ rest"
  have "dd \<noteq> []" using len(3) by auto
  then have "\<not> isspace (hd (dd @ r6))"
    using dig(3) isdigit_not_space by (cases dd) auto
  then have skip: "dropWhile isspace (ws1 @ dd @ r6) = dd @ r6"
    using sp(1) by (intro dropWhile_spaces) simp_all
  from contact_group_matches [OF sp(2) sender, of rest]
  obtain g where g: "contact_group (ws2 @ sender @ CHR '':'' # rest) = Some (g, CHR '':'' # rest)"
    by blast
  have "match_line line
        = Some (hh @ '':'' @ mi, dd @ ''/'' @ mo @ ''/'' @ yyyy, g,
                takeWhile (\<lambda>c. c \<noteq> CHR 0x0A) (dropWhile isspace rest))"
    unfolding match_line_def line
    using skip g
    by (simp add: expect_def digits_prefix len dig r6_def)
  then show ?thesis by blast
qed

lemma match_line_pattern: "(match_line line \<noteq> None) = matches_pattern line"
  using match_line_sound [of line] match_line_complete [of line] by auto

lemma extract_lines_pattern:
  "extract_lines ls
     = map (\<lambda>l. make_message (the (match_line l))) (filter matches_pattern ls)"
  by (induction ls) (auto simp flip: match_line_pattern split: option.splits)

lemma extract_lines_matching:
  "extract_lines ls
     = map (\<lambda>l. make_message (the (match_line l))) (filter (\<lambda>l. match_line l \<noteq> None) ls)"
  by (induction ls) (auto split: option.splits)

lemma extract_lines_append: "extract_lines (xs @ ys) = extract_lines xs @ extract_lines ys"
  by (simp add: extract_lines_matching)

lemma tokens_after_trailing:
  "list_all isspace ws \<Longrightarrow> tokens_after b (s @ ws) = tokens_after b s"
proof (induction s arbitrary: b)
  case Nil
  then show ?case by (induction ws arbitrary: b) simp_all
next
  case (Cons c s)
  then show ?case by simp
qed

lemma tokens_after_leading: "tokens_after True (dropWhile isspace s) = tokens_after True s"
  by (induction s) simp_all

lemma strip_decompose:
  "dropWhile isspace s = strip s @ rev (takeWhile isspace (rev (dropWhile isspace s)))"
proof -
  define t where "t = rev (dropWhile isspace s)"
  have "rev t = rev (takeWhile isspace t @ dropWhile isspace t)"
    by (simp only: takeWhile_dropWhile_id)
  then have "rev t = rev (dropWhile isspace t) @ rev (takeWhile isspace t)"
    by (simp only: rev_append)
  then show ?thesis by (simp add: strip_def t_def)
qed

lemma split_strip: "length (py_split (strip s)) = length (py_split s)"
proof -
  define ws where "ws = rev (takeWhile isspace (rev (dropWhile isspace s)))"
  have all: "list_all isspace ws"
    unfolding ws_def list_all_iff using set_takeWhileD by fastforce
  have "tokens_after True (strip s) = tokens_after True (strip s @ ws)"
    using tokens_after_trailing [OF all] by simp
  also have "strip s @ ws = dropWhile isspace s"
    using strip_decompose [of s] by (simp add: ws_def)
  finally show ?thesis by (simp add: word_count_tokens tokens_after_leading)
qed

lemma make_message_word_count:
  "m_word_count (make_message g) = length (py_split (m_message (make_message g)))"
  by (simp add: make_message_def split_strip split: prod.splits)

lemma make_message_length:
  "m_length (make_message (t, d, c, msg))
     = length (takeWhile isspace msg) + length (m_message (make_message (t, d, c, msg)))
       + length (takeWhile isspace (rev (dropWhile isspace msg)))"
proof -
  have "length msg = length (takeWhile isspace msg) + length (dropWhile isspace msg)"
    by (metis length_append takeWhile_dropWhile_id)
  also have "length (dropWhile isspace msg)
        = length (strip msg) + length (takeWhile isspace (rev (dropWhile isspace msg)))"
    by (subst strip_decompose) simp
  finally show ?thesis by (simp add: make_message_def)
qed

lemma hello_line:
  "match_line (''[14:05, 01/02/2023] Alice: Hello there!'' @ [CHR 0x0A])
     = Some (''14:05'', ''01/02/2023'', ''Alice'', ''Hello there!'')"
  by code_simp

lemma hello_message:
  "make_message (''14:05'', ''01/02/2023'', ''Alice'', ''Hello there!'')
     = \<lparr>m_timestamp = ''01/02/2023 14:05'', m_contact = ''Alice'', m_message = ''Hello there!'',
        m_length = 12, m_word_count = 2\<rparr>"
  by code_simp

lemma encrypted_line: "match_line ''Messages are end-to-end encrypted'' = None"
  by code_simp

lemma hello_trailing_line:
  "match_line (''[14:05, 01/02/2023] Alice: Hello there! '' @ [CHR 0x0A])
     = Some (''14:05'', ''01/02/2023'', ''Alice'', ''Hello there! '')"
  by code_simp

lemma hello_trailing_message:
  "make_message (''14:05'', ''01/02/2023'', ''Alice'', ''Hello there! '')
     = \<lparr>m_timestamp = ''01/02/2023 14:05'', m_contact = ''Alice'', m_message = ''Hello there!'',
        m_length = 13, m_word_count = 2\<rparr>"
  by code_simp


section \<open>The message-level scorer\<close>

text \<open>
  C1, as the claim states it, fails. On "Wow!!!" the reference average is exactly 0.2875,
  which rounds to 0.288, while both scorers return the float 0.287: the float sum of the
  four weighted sub-scores lies just below the tie. On "ab" the reference average is
  exactly 0.1325 and the WhatsApp scorer returns the float 0.133, so neither direction
  of breaking the tie describes the code.
\<close>

theorem harmony_score_not_reference:
  "calculate_harmony_score ''Wow!!!'' \<noteq> fl (spec_score positive_words negative_words ''Wow!!!'')
   \<and> calculate_harmony ''Wow!!!'' \<noteq> fl (spec_score pe_positive_words pe_negative_words ''Wow!!!'')
   \<and> calculate_harmony_score ''Wow!!!'' = fl (287 / 1000)
   \<and> calculate_harmony ''Wow!!!'' = fl (287 / 1000)
   \<and> spec_average positive_words negative_words ''Wow!!!'' = 2875 / 10000
   \<and> spec_average pe_positive_words pe_negative_words ''Wow!!!'' = 2875 / 10000
   \<and> spec_score positive_words negative_words ''Wow!!!'' = 288 / 1000
   \<and> spec_score pe_positive_words pe_negative_words ''Wow!!!'' = 288 / 1000
   \<and> calculate_harmony_score ''ab'' = fl (133 / 1000)
   \<and> spec_average positive_words negative_words ''ab'' = 1325 / 10000"
proof -
  have pe: "calculate_harmony ''Wow!!!'' = fl (287 / 1000)"
    using scorers_agree [OF wow_no_lexicon] wow_code by simp
  have ne: "fl (287 / 1000) \<noteq> fl (288 / 1000)" using fl_287_288 by simp
  show ?thesis using ne by (simp add: wow_code pe wow_spec ab_code ab_spec)
qed

text \<open>
  C1, amended: for every text, each of the two message-level scorers
  (\<open>calculate_harmony_score\<close> of the WhatsApp extractor and \<open>calculate_harmony\<close> of
  the platform extractor) returns the float of a whole number of thousandths between 0
  and 1 that lies within half a thousandth of the reference average for its lexicons:
  the average with weight 0.25 each of the length score, the word score, the clamped
  sentiment score and the punctuation score, all four in exact arithmetic. Whenever the
  reference average does not lie exactly halfway between two thousandths, the scorer
  returns the float of the reference average rounded to three decimals. The result lies
  between 0 and 1 and the empty string scores 0.125. The scorers are functions of the
  text alone and have no failing branch, so they are total and deterministic.
\<close>

theorem harmony_score_nearest_thousandth:
  "(\<exists>k. 0 \<le> k \<and> k \<le> 1000 \<and> calculate_harmony_score text = fl (of_int k / 1000)
        \<and> \<bar>of_int k - spec_average positive_words negative_words text * 1000\<bar> \<le> 1 / 2)
   \<and> (\<exists>k. 0 \<le> k \<and> k \<le> 1000 \<and> calculate_harmony text = fl (of_int k / 1000)
        \<and> \<bar>of_int k - spec_average pe_positive_words pe_negative_words text * 1000\<bar> \<le> 1 / 2)
   \<and> (frac (spec_average positive_words negative_words text * 1000) \<noteq> 1 / 2
        \<longrightarrow> calculate_harmony_score text = fl (spec_score positive_words negative_words text))
   \<and> (frac (spec_average pe_positive_words pe_negative_words text * 1000) \<noteq> 1 / 2
        \<longrightarrow> calculate_harmony text = fl (spec_score pe_positive_words pe_negative_words text))
   \<and> 0 \<le> calculate_harmony_score text \<and> calculate_harmony_score text \<le> 1
   \<and> 0 \<le> calculate_harmony text \<and> calculate_harmony text \<le> 1
   \<and> calculate_harmony_score [] = 1 / 8 \<and> calculate_harmony [] = 1 / 8
   \<and> spec_score positive_words negative_words [] = 1 / 8
   \<and> spec_score pe_positive_words pe_negative_words [] = 1 / 8"
proof -
  have w: "frac (spec_average positive_words negative_words text * 1000) \<noteq> 1 / 2
        \<longrightarrow> calculate_harmony_score text = fl (spec_score positive_words negative_words text)"
    using calculate_harmony_score_nearest(2) by blast
  have p: "frac (spec_average pe_positive_words pe_negative_words text * 1000) \<noteq> 1 / 2
        \<longrightarrow> calculate_harmony text = fl (spec_score pe_positive_words pe_negative_words text)"
    using calculate_harmony_nearest(2) by blast
  show ?thesis
    by (intro conjI calculate_harmony_score_nearest(1) calculate_harmony_nearest(1) w p
        calculate_harmony_score_range calculate_harmony_range
        calculate_harmony_score_empty calculate_harmony_empty spec_score_empty)
qed

theorem harmony_score_nearest_thousandth_witness:
  "frac (spec_average positive_words negative_words ''Hello there!'' * 1000) \<noteq> 1 / 2
   \<and> frac (spec_average pe_positive_words pe_negative_words ''Hello there!'' * 1000) \<noteq> 1 / 2
   \<and> calculate_harmony_score ''Hello there!'' = fl (1 / 5)
   \<and> calculate_harmony ''Hello there!'' = fl (1 / 5)"
proof -
  from harmony_score_nearest_thousandth [of "''Hello there!''"] hello_there_spec(1,2)
  have "calculate_harmony_score ''Hello there!''
        = fl (spec_score positive_words negative_words ''Hello there!'')"
    and "calculate_harmony ''Hello there!''
        = fl (spec_score pe_positive_words pe_negative_words ''Hello there!'')"
    by blast+
  then have "calculate_harmony_score ''Hello there!'' = fl (1 / 5)"
    and "calculate_harmony ''Hello there!'' = fl (1 / 5)"
    by (simp_all only: hello_there_spec(3,4))
  with hello_there_spec(1,2) show ?thesis by blast
qed


section \<open>The tier classifier\<close>

text \<open>
  C2: for every score the classifier returns exactly one of the four actions, by strict
  comparisons with the floats 0.8, 0.6 and 0.4: above 0.8 ARCHIVE, above 0.6 and at most
  0.8 VERIFY, above 0.4 and at most 0.6 PROCESS, at most 0.4 REVIEW. The face chosen with
  the action is the one \<open>assign_face\<close> returns. On a score of \<open>k\<close> thousandths, as the
  scorer produces, the bands are those of \<open>k\<close> against 800, 600 and 400; in particular
  0.81 gives ARCHIVE, 0.8 VERIFY, 0.6 PROCESS, 0.4 REVIEW and 0.0 REVIEW.
\<close>

theorem tier_classifier_bands:
  "snd (merkabah_route s) \<in> set [''ARCHIVE'', ''VERIFY'', ''PROCESS'', ''REVIEW'']
   \<and> (snd (merkabah_route s) = ''ARCHIVE'') = (fl (8 / 10) < s)
   \<and> (snd (merkabah_route s) = ''VERIFY'') = (fl (6 / 10) < s \<and> s \<le> fl (8 / 10))
   \<and> (snd (merkabah_route s) = ''PROCESS'') = (fl (4 / 10) < s \<and> s \<le> fl (6 / 10))
   \<and> (snd (merkabah_route s) = ''REVIEW'') = (s \<le> fl (4 / 10))
   \<and> fst (merkabah_route s) = assign_face s
   \<and> (assign_face s = ''EAGLE'') = (fl (8 / 10) < s)
   \<and> (assign_face s = ''LION'') = (fl (6 / 10) < s \<and> s \<le> fl (8 / 10))
   \<and> (assign_face s = ''OX'') = (fl (4 / 10) < s \<and> s \<le> fl (6 / 10))
   \<and> (assign_face s = ''MAN'') = (s \<le> fl (4 / 10))
   \<and> action (pipe_through_merkabah t m) = snd (merkabah_route (calculate_harmony_score m))
   \<and> snd (merkabah_route (fl (of_int k / 1000))) =
       (if 800 < k then ''ARCHIVE'' else if 600 < k then ''VERIFY''
        else if 400 < k then ''PROCESS'' else ''REVIEW'')
   \<and> snd (merkabah_route (fl (81 / 100))) = ''ARCHIVE''
   \<and> snd (merkabah_route (fl (8 / 10))) = ''VERIFY''
   \<and> snd (merkabah_route (fl (6 / 10))) = ''PROCESS''
   \<and> snd (merkabah_route (fl (4 / 10))) = ''REVIEW''
   \<and> snd (merkabah_route 0) = ''REVIEW''"
  by (intro conjI route_total route_bands route_face face_bands pipe_action
      route_thousandths route_examples)


section \<open>The sentiment sub-score\<close>

text \<open>
  C7, as the claim states it, fails: on "Thanks! Great, great, great." the sentiment
  sub-score is not saturated at 1.0.
\<close>

theorem thanks_great_not_saturated:
  "sentiment_score ''Thanks! Great, great, great.'' \<noteq> 1
   \<and> pe_sentiment ''Thanks! Great, great, great.'' \<noteq> 1"
  using fl_seven_tenths by (simp add: thanks_great_sentiment)

text \<open>
  C7, amended: on "Thanks! Great, great, great." two lexicon words are found and the
  sentiment sub-score is the float 0.7, not 1.0. For each of the two scorers, of two
  texts with the same number of negative hits, the one with more positive hits has a
  strictly larger sentiment sub-score, as long as the positive hits of the first are no
  more than five below its negative hits and those of the second no more than five above;
  without that restriction the sub-score of the second is at least as large. The
  sub-score lies between 0 and 1; it is 1.0 exactly when the positive hits exceed the
  negative hits by five or more, and 0.0 exactly when the negative hits exceed the
  positive hits by five or more.
\<close>

theorem sentiment_monotone_capped:
  "(positive_count a \<le> positive_count b \<and> negative_count a = negative_count b
      \<longrightarrow> sentiment_score a \<le> sentiment_score b)
   \<and> (positive_count a < positive_count b \<and> negative_count a = negative_count b
        \<and> - 5 \<le> int (positive_count a) - int (negative_count a)
        \<and> int (positive_count b) - int (negative_count b) \<le> 5
      \<longrightarrow> sentiment_score a < sentiment_score b)
   \<and> (pe_positive a \<le> pe_positive b \<and> pe_negative a = pe_negative b
      \<longrightarrow> pe_sentiment a \<le> pe_sentiment b)
   \<and> (pe_positive a < pe_positive b \<and> pe_negative a = pe_negative b
        \<and> - 5 \<le> int (pe_positive a) - int (pe_negative a)
        \<and> int (pe_positive b) - int (pe_negative b) \<le> 5
      \<longrightarrow> pe_sentiment a < pe_sentiment b)
   \<and> 0 \<le> sentiment_score b \<and> sentiment_score b \<le> 1
   \<and> 0 \<le> pe_sentiment b \<and> pe_sentiment b \<le> 1
   \<and> (sentiment_score b = 1) = (5 \<le> int (positive_count b) - int (negative_count b))
   \<and> (pe_sentiment b = 1) = (5 \<le> int (pe_positive b) - int (pe_negative b))
   \<and> (sentiment_score b = 0) = (int (positive_count b) - int (negative_count b) \<le> - 5)
   \<and> (pe_sentiment b = 0) = (int (pe_positive b) - int (pe_negative b) \<le> - 5)
   \<and> positive_count ''Thanks! Great, great, great.'' = 2
   \<and> negative_count ''Thanks! Great, great, great.'' = 0
   \<and> pe_positive ''Thanks! Great, great, great.'' = 2
   \<and> pe_negative ''Thanks! Great, great, great.'' = 0
   \<and> sentiment_score ''Thanks! Great, great, great.'' = fl (7 / 10)
   \<and> pe_sentiment ''Thanks! Great, great, great.'' = fl (7 / 10)"
proof -
  have m1: "positive_count a \<le> positive_count b \<and> negative_count a = negative_count b
      \<longrightarrow> sentiment_score a \<le> sentiment_score b"
    using sentiment_score_mono by blast
  have m2: "positive_count a < positive_count b \<and> negative_count a = negative_count b
        \<and> - 5 \<le> int (positive_count a) - int (negative_count a)
        \<and> int (positive_count b) - int (negative_count b) \<le> 5
      \<longrightarrow> sentiment_score a < sentiment_score b"
    using sentiment_score_strict by blast
  have m3: "pe_positive a \<le> pe_positive b \<and> pe_negative a = pe_negative b
      \<longrightarrow> pe_sentiment a \<le> pe_sentiment b"
    using pe_sentiment_mono by blast
  have m4: "pe_positive a < pe_positive b \<and> pe_negative a = pe_negative b
        \<and> - 5 \<le> int (pe_positive a) - int (pe_negative a)
        \<and> int (pe_positive b) - int (pe_negative b) \<le> 5
      \<longrightarrow> pe_sentiment a < pe_sentiment b"
    using pe_sentiment_strict by blast
  show ?thesis
    by (intro conjI m1 m2 m3 m4 sentiment_score_range pe_sentiment_range
        sentiment_score_saturated pe_sentiment_saturated sentiment_score_floor
        pe_sentiment_floor thanks_great_counts thanks_great_sentiment)
qed

theorem sentiment_monotone_capped_witness:
  "positive_count ''good'' < positive_count ''good great''
   \<and> negative_count ''good'' = negative_count ''good great''
   \<and> - 5 \<le> int (positive_count ''good'') - int (negative_count ''good'')
   \<and> int (positive_count ''good great'') - int (negative_count ''good great'') \<le> 5
   \<and> pe_positive ''good'' < pe_positive ''good great''
   \<and> pe_negative ''good'' = pe_negative ''good great''
   \<and> - 5 \<le> int (pe_positive ''good'') - int (pe_negative ''good'')
   \<and> int (pe_positive ''good great'') - int (pe_negative ''good great'') \<le> 5
   \<and> sentiment_score ''good'' < sentiment_score ''good great''
   \<and> sentiment_score ''good'' \<le> sentiment_score ''good great''
   \<and> pe_sentiment ''good'' < pe_sentiment ''good great''
   \<and> pe_sentiment ''good'' \<le> pe_sentiment ''good great''"
proof -
  have h: "positive_count ''good'' < positive_count ''good great''"
    "positive_count ''good'' \<le> positive_count ''good great''"
    "negative_count ''good'' = negative_count ''good great''"
    "- 5 \<le> int (positive_count ''good'') - int (negative_count ''good'')"
    "int (positive_count ''good great'') - int (negative_count ''good great'') \<le> 5"
    "pe_positive ''good'' < pe_positive ''good great''"
    "pe_positive ''good'' \<le> pe_positive ''good great''"
    "pe_negative ''good'' = pe_negative ''good great''"
    "- 5 \<le> int (pe_positive ''good'') - int (pe_negative ''good'')"
    "int (pe_positive ''good great'') - int (pe_negative ''good great'') \<le> 5"
    by (simp_all add: good_great_counts)
  from sentiment_monotone_capped [of "''good''" "''good great''"] h
  have "sentiment_score ''good'' < sentiment_score ''good great''"
    "sentiment_score ''good'' \<le> sentiment_score ''good great''"
    "pe_sentiment ''good'' < pe_sentiment ''good great''"
    "pe_sentiment ''good'' \<le> pe_sentiment ''good great''"
    by blast+
  with h show ?thesis by blast
qed


section \<open>The two scorers compared\<close>

text \<open>
  C8, as the claim states it, fails: the two scorers differ on the text "please", which
  only the lexicon of the WhatsApp extractor contains.
\<close>

theorem scorers_differ_on_please:
  "calculate_harmony_score ''please'' \<noteq> calculate_harmony ''please''"
  by (rule please_differs)

text \<open>
  C8, amended: the two scorers return the same value on every text whose lower-cased form
  contains both or neither of "please" and "sorry", the two words by which the lexicons
  differ.
\<close>

theorem scorers_agree_without_please_sorry:
  assumes "py_in ''please'' (lower text) = py_in ''sorry'' (lower text)"
  shows "calculate_harmony_score text = calculate_harmony text"
  using assms by (rule scorers_agree)

theorem scorers_agree_without_please_sorry_witness:
  "py_in ''please'' (lower ''Hello there!'') = py_in ''sorry'' (lower ''Hello there!'')
   \<and> calculate_harmony_score ''Hello there!'' = calculate_harmony ''Hello there!''"
proof -
  have h: "py_in ''please'' (lower ''Hello there!'') = py_in ''sorry'' (lower ''Hello there!'')"
    by code_simp
  from h scorers_agree_without_please_sorry [OF h] show ?thesis by (rule conjI)
qed


section \<open>How sentiment hits are counted\<close>

text \<open>
  C10: the positive and the negative count are the number of lexicon words that occur in
  the lower-cased text as a contiguous run of characters. A word counts once however
  often it occurs ("great great great" has one positive hit, as "great" has), in any
  letter case ("GREAT"), and also inside a longer word ("no" inside "know").
\<close>

theorem sentiment_hits_by_containment:
  "positive_count m = card {w \<in> set positive_words. sublist w (lower m)}
   \<and> negative_count m = card {w \<in> set negative_words. sublist w (lower m)}
   \<and> pe_positive m = card {w \<in> set pe_positive_words. sublist w (lower m)}
   \<and> pe_negative m = card {w \<in> set pe_negative_words. sublist w (lower m)}
   \<and> positive_count ''great great great'' = 1 \<and> positive_count ''great'' = 1
   \<and> pe_positive ''great great great'' = 1 \<and> pe_positive ''great'' = 1
   \<and> positive_count ''GREAT'' = 1 \<and> pe_positive ''GREAT'' = 1
   \<and> negative_count ''I know'' = 1 \<and> pe_negative ''I know'' = 1"
  unfolding positive_count_def negative_count_def pe_positive_def pe_negative_def
  by (intro conjI count_card lexicons_distinct
      hit_examples [unfolded positive_count_def negative_count_def pe_positive_def
        pe_negative_def])


section \<open>The backend queries\<close>





section \<open>The orchestration\<close>

text \<open>
  C4: for every prompt and every list of requested faces (or none, which means all
  four), \<open>orchestrate\<close> returns a complete result and never raises: the prompt, the
  status "complete", the aggregate score of the collected responses, and one entry for
  each requested face that the orchestrator knows. A face whose query returns the same
  value whatever was sent before has that value as its entry; in particular a missing
  OpenAI credential is recorded as the entry of MAN, and the text of the local model as
  the entry of OX, side by side.
\<close>

theorem orchestrate_never_fails:
  "\<exists>res self' sent'.
     orchestrate w prompt faces self sent = (Inr (res, self'), sent')
     \<and> o_prompt res = prompt \<and> o_status res = ''complete''
     \<and> responses self' = o_responses res
     \<and> o_harmony_score res = orchestrator_calculate_harmony w self'
     \<and> fst ` set (o_responses res)
         = (case faces of None \<Rightarrow> known_faces | Some fs \<Rightarrow> set fs \<inter> known_faces)
     \<and> ((\<forall>sent. \<exists>out. query_face w prompt f sent = Some out \<and> fst out = Inr v)
          \<and> f \<in> set (case faces of None \<Rightarrow> [''MAN'', ''LION'', ''OX'', ''EAGLE'']
                                    | Some fs \<Rightarrow> fs)
          \<longrightarrow> map_of (o_responses res) f = Some v)
     \<and> ((getenv w ''OPENAI_API_KEY'' = None \<or> getenv w ''OPENAI_API_KEY'' = Some [])
          \<and> ''MAN'' \<in> set (case faces of None \<Rightarrow> [''MAN'', ''LION'', ''OX'', ''EAGLE'']
                                        | Some fs \<Rightarrow> fs)
          \<longrightarrow> map_of (o_responses res) ''MAN''
                = Some (JStr ''[MAN] OpenAI API key not configured''))
     \<and> ((\<forall>sent. fst (query_ollama w prompt ''mistral'' sent) = Inr v)
          \<and> ''OX'' \<in> set (case faces of None \<Rightarrow> [''MAN'', ''LION'', ''OX'', ''EAGLE'']
                                       | Some fs \<Rightarrow> fs)
          \<longrightarrow> map_of (o_responses res) ''OX'' = Some v)"
proof -
  define fs where
    "fs = (case faces of None \<Rightarrow> [''MAN'', ''LION'', ''OX'', ''EAGLE''] | Some fs \<Rightarrow> fs)"
  from orchestrate_returns [of w prompt faces self sent]
  obtain res self' sent' where
    r: "orchestrate w prompt faces self sent = (Inr (res, self'), sent')"
      "o_prompt res = prompt" "o_status res = ''complete''"
      "o_responses res = responses self'"
      "o_harmony_score res = orchestrator_calculate_harmony w self'"
      "fst ` set (o_responses res)
         = (case faces of None \<Rightarrow> known_faces | Some fs \<Rightarrow> set fs \<inter> known_faces)"
    and l: "orchestrate_loop w prompt fs (self\<lparr>responses := []\<rparr>) sent
         = (Inr (self'\<lparr>joinity_harmony_score := joinity_harmony_score self\<rparr>), sent')"
    unfolding fs_def by blast
  have entry: "map_of (o_responses res) g = Some u"
    if "\<And>sent. \<exists>out. query_face w prompt g sent = Some out \<and> fst out = Inr u" "g \<in> set fs"
    for g u
    using orchestrate_loop_entry [OF that(1) l] that(2) r(4) by simp
  have general: "(\<forall>sent. \<exists>out. query_face w prompt f sent = Some out \<and> fst out = Inr v)
          \<and> f \<in> set fs \<longrightarrow> map_of (o_responses res) f = Some v"
    using entry [of f v] by blast
  have man: "(getenv w ''OPENAI_API_KEY'' = None \<or> getenv w ''OPENAI_API_KEY'' = Some [])
          \<and> ''MAN'' \<in> set fs
          \<longrightarrow> map_of (o_responses res) ''MAN''
                = Some (JStr ''[MAN] OpenAI API key not configured'')"
  proof (intro impI, elim conjE)
    assume m: "getenv w ''OPENAI_API_KEY'' = None \<or> getenv w ''OPENAI_API_KEY'' = Some []"
      and "''MAN'' \<in> set fs"
    then show "map_of (o_responses res) ''MAN''
                = Some (JStr ''[MAN] OpenAI API key not configured'')"
      by (intro entry) (simp_all add: query_face_def query_openai_missing [OF m])
  qed
  have ox: "(\<forall>sent. fst (query_ollama w prompt ''mistral'' sent) = Inr v) \<and> ''OX'' \<in> set fs
          \<longrightarrow> map_of (o_responses res) ''OX'' = Some v"
  proof (intro impI, elim conjE)
    assume "\<forall>sent. fst (query_ollama w prompt ''mistral'' sent) = Inr v" and "''OX'' \<in> set fs"
    then show "map_of (o_responses res) ''OX'' = Some v"
      by (intro entry) (simp_all add: query_face_def)
  qed
  note facts = r(1,2,3) r(4) [symmetric] r(5,6) general man ox
  show ?thesis
    unfolding fs_def [symmetric]
    by (rule exI [of _ res], rule exI [of _ self'], rule exI [of _ sent']) (intro conjI facts)
qed

theorem orchestrate_never_fails_witness:
  "\<exists>res self' sent'.
     orchestrate local_only_world ''hi'' (Some [''MAN'', ''OX''])
       \<lparr>responses = [], joinity_harmony_score = 0\<rparr> [] = (Inr (res, self'), sent')
     \<and> map_of (o_responses res) ''MAN'' = Some (JStr ''[MAN] OpenAI API key not configured'')
     \<and> map_of (o_responses res) ''OX'' = Some (JStr ''Hello'')
     \<and> fst ` set (o_responses res) = {''MAN'', ''OX''}"
proof -
  have ox: "\<forall>sent. fst (query_ollama local_only_world ''hi'' ''mistral'' sent) = Inr (JStr ''Hello'')"
    by (simp add: local_only_world_def query_ollama_def http_try_cases ollama_request_def
      and_then_def subscript_key_def)
  have man: "getenv local_only_world ''OPENAI_API_KEY'' = None"
    by (simp add: local_only_world_def)
  from orchestrate_never_fails [of local_only_world "''hi''" "Some [''MAN'', ''OX'']"
      "\<lparr>responses = [], joinity_harmony_score = 0\<rparr>" "[]" "''OX''" "JStr ''Hello''"]
  obtain res self' sent' where
    "orchestrate local_only_world ''hi'' (Some [''MAN'', ''OX''])
       \<lparr>responses = [], joinity_harmony_score = 0\<rparr> [] = (Inr (res, self'), sent')"
    "map_of (o_responses res) ''MAN'' = Some (JStr ''[MAN] OpenAI API key not configured'')"
    "map_of (o_responses res) ''OX'' = Some (JStr ''Hello'')"
    "fst ` set (o_responses res) = {''MAN'', ''OX''}"
    using ox man by (auto simp: known_faces_def)
  then show ?thesis by blast
qed


section \<open>The aggregate harmony score\<close>

text \<open>
  C5, as the claim states it, fails. For two responses of 5 and 6 characters the total
  length over the count over 1000 is exactly 0.0055, which rounds to 0.006, while the
  orchestrator returns the float 0.005: the float quotient lies just below the tie. For
  two responses of 2 and 3 characters the quotient is exactly 0.0025 and the
  orchestrator returns the float 0.003, so neither direction of breaking the tie
  describes the code.
\<close>

theorem aggregate_harmony_not_reference:
  "orchestrator_calculate_harmony local_only_world
     \<lparr>responses = [(''MAN'', JStr ''Hello''), (''OX'', JStr ''Hello!'')],
      joinity_harmony_score = 0\<rparr>
   \<noteq> fl (spec_aggregate [''Hello'', ''Hello!''])
   \<and> orchestrator_calculate_harmony local_only_world
       \<lparr>responses = [(''MAN'', JStr ''Hello''), (''OX'', JStr ''Hello!'')],
        joinity_harmony_score = 0\<rparr> = fl (5 / 1000)
   \<and> spec_aggregate_average [''Hello'', ''Hello!''] = 55 / 10000
   \<and> spec_aggregate [''Hello'', ''Hello!''] = 6 / 1000
   \<and> orchestrator_calculate_harmony local_only_world
       \<lparr>responses = [(''MAN'', JStr ''ab''), (''OX'', JStr ''abc'')],
        joinity_harmony_score = 0\<rparr> = fl (3 / 1000)
   \<and> spec_aggregate_average [''ab'', ''abc''] = 25 / 10000"
proof -
  have ne: "fl (5 / 1000) \<noteq> fl (6 / 1000)" using aggregate_five_six(4) by simp
  show ?thesis using ne by (simp add: aggregate_five_six(1,2,3) aggregate_two_three(1,2))
qed

text \<open>
  C5, amended: for every non-empty collection of fewer than \<open>2 ^ 40\<close> responses the
  aggregate harmony score is the float of a whole number of thousandths between 0 and 1
  that lies within half a thousandth of the reference value: the total length of the
  response texts divided by their number, divided by 1000 and capped at 1.0, in exact
  arithmetic. Whenever the reference value does not lie exactly halfway between two
  thousandths, the score is the float of the reference value rounded to three decimals.
  The target differs from the 200 characters of the message-level scorer: one response
  of 200 characters has the aggregate 0.2, and the length score 1.
\<close>

theorem aggregate_harmony_nearest_thousandth:
  assumes "responses self \<noteq> []" "length (responses self) < 2 ^ 40"
  shows "(\<exists>k. 0 \<le> k \<and> k \<le> 1000
              \<and> orchestrator_calculate_harmony w self = fl (of_int k / 1000)
              \<and> \<bar>of_int k
                   - spec_aggregate_average (map (\<lambda>kv. py_str w (snd kv)) (responses self))
                     * 1000\<bar> \<le> 1 / 2)
         \<and> (frac (spec_aggregate_average (map (\<lambda>kv. py_str w (snd kv)) (responses self))
                   * 1000) \<noteq> 1 / 2
              \<longrightarrow> orchestrator_calculate_harmony w self
                    = fl (spec_aggregate (map (\<lambda>kv. py_str w (snd kv)) (responses self))))
         \<and> 0 \<le> orchestrator_calculate_harmony w self
         \<and> orchestrator_calculate_harmony w self \<le> 1
         \<and> spec_aggregate [replicate 200 CHR ''a''] = 2 / 10
         \<and> orchestrator_calculate_harmony local_only_world
              \<lparr>responses = [(''OX'', JStr (replicate 200 CHR ''a''))],
               joinity_harmony_score = 0\<rparr> = fl (2 / 10)
         \<and> length_score (replicate 200 CHR ''a'') = 1"
proof -
  have t: "frac (spec_aggregate_average (map (\<lambda>kv. py_str w (snd kv)) (responses self))
                 * 1000) \<noteq> 1 / 2
           \<longrightarrow> orchestrator_calculate_harmony w self
                 = fl (spec_aggregate (map (\<lambda>kv. py_str w (snd kv)) (responses self)))"
    using orchestrator_harmony_nearest(2) [OF assms] by blast
  show ?thesis
    by (intro conjI orchestrator_harmony_nearest(1) [OF assms] t orchestrator_harmony_range
        aggregate_target_example aggregate_target_length_score)
qed

theorem aggregate_harmony_nearest_thousandth_witness:
  "frac (spec_aggregate_average [''[MAN] OpenAI API key not configured'', ''Hello''] * 1000)
   \<noteq> 1 / 2
   \<and> orchestrator_calculate_harmony local_only_world
       \<lparr>responses = [(''MAN'', JStr ''[MAN] OpenAI API key not configured''),
                      (''OX'', JStr ''Hello'')],
        joinity_harmony_score = 0\<rparr> = fl (20 / 1000)"
proof -
  define self where "self = \<lparr>responses = [(''MAN'', JStr ''[MAN] OpenAI API key not configured''),
                      (''OX'', JStr ''Hello'')], joinity_harmony_score = 0\<rparr>"
  have ne: "responses self \<noteq> []" by (simp add: self_def)
  have lt: "length (responses self) < 2 ^ 40" by (simp add: self_def)
  have texts: "map (\<lambda>kv. py_str local_only_world (snd kv)) (responses self)
               = [''[MAN] OpenAI API key not configured'', ''Hello'']"
    by (simp add: self_def py_str_def)
  from aggregate_harmony_nearest_thousandth [OF ne lt, of local_only_world]
  have "frac (spec_aggregate_average [''[MAN] OpenAI API key not configured'', ''Hello'']
              * 1000) \<noteq> 1 / 2
        \<longrightarrow> orchestrator_calculate_harmony local_only_world self
              = fl (spec_aggregate [''[MAN] OpenAI API key not configured'', ''Hello''])"
    unfolding texts by blast
  with aggregate_witness_values(1)
  have "orchestrator_calculate_harmony local_only_world self
        = fl (spec_aggregate [''[MAN] OpenAI API key not configured'', ''Hello''])" by blast
  then have "orchestrator_calculate_harmony local_only_world self = fl (20 / 1000)"
    by (simp only: aggregate_witness_values(2))
  with aggregate_witness_values(1) show ?thesis unfolding self_def by blast
qed


section \<open>The message ingester\<close>

text \<open>
  C6: the claim holds but for the length. The ingester yields one message for each line
  the pattern describes and none for the others (\<open>extract_lines_pattern\<close>), the word
  count is the number of tokens of the stored body (\<open>make_message_word_count\<close>), and
  the line "[14:05, 01/02/2023] Alice: Hello there!" gives the sender "Alice", the body
  "Hello there!" and two words (\<open>hello_line\<close>, \<open>hello_message\<close>). The length,
  however, is taken before the body is stripped (\<open>make_message_length\<close>): with one
  space before the end of the line the stored body "Hello there!" has 12 characters and
  the stored length is 13.
\<close>

theorem trailing_space_length_mismatch:
  "extract_lines [''[14:05, 01/02/2023] Alice: Hello there! '' @ [CHR 0x0A]]
     = [\<lparr>m_timestamp = ''01/02/2023 14:05'', m_contact = ''Alice'',
         m_message = ''Hello there!'', m_length = 13, m_word_count = 2\<rparr>]
   \<and> length ''Hello there!'' = 12"
  by (simp only: extract_lines.simps hello_trailing_line option.case hello_trailing_message)
    simp

end
